theory Spec2Isabelle
  imports Complex_Main
begin

section \<open>Values: the JSON stream, Python exceptions, SQLite cells\<close>

text \<open>
  \<^verbatim>\<open>ijson.items\<close> yields one Python value per array element: a dict, a list, a str, an
  int, a \<^verbatim>\<open>Decimal\<close> (every number that is not an integer), a bool or \<^verbatim>\<open>None\<close>.
  A dict is kept as the list of its members in document order; a key written twice
  keeps its last value, as \<^verbatim>\<open>dict\<close> does. A Python \<^verbatim>\<open>str\<close> is a \<^typ>\<open>string\<close>; the
  programs only compare it with ASCII literals, search it for an ASCII parenthesis and
  cut it at the positions found.
\<close>

datatype json =
    JNull
  | JBool bool
  | JInt int
  | JDec rat
  | JStr string
  | JArr "json list"
  | JObj "(string \<times> json) list"

text \<open>
  The exceptions the modelled statements can raise. \<open>BindError\<close> is what
  \<^verbatim>\<open>sqlite3\<close> raises for a parameter of an unsupported type (a Decimal, a list, a
  dict), \<open>OverflowError\<close> what it raises for an int outside 64 bits.
\<close>

datatype py_error =
    AttributeError
  | TypeError
  | KeyError
  | IndexError
  | IntegrityError
  | BindError
  | OverflowError

datatype sqlval = SNull | SInt int | SText string

definition bindE :: "'e + 'a \<Rightarrow> ('a \<Rightarrow> 'e + 'b) \<Rightarrow> 'e + 'b" where
  "bindE m f = (case m of Inl e \<Rightarrow> Inl e | Inr x \<Rightarrow> f x)"

text \<open>A \<^verbatim>\<open>for\<close> loop over a list whose body may raise: the first exception ends it.\<close>

fun foldE :: "('s \<Rightarrow> 'a \<Rightarrow> 'e + 's) \<Rightarrow> 's \<Rightarrow> 'a list \<Rightarrow> 'e + 's" where
  "foldE f s [] = Inr s"
| "foldE f s (x # xs) = (case f s x of Inl e \<Rightarrow> Inl e | Inr s' \<Rightarrow> foldE f s' xs)"

section \<open>Python operations used by \<^verbatim>\<open>import.py\<close>\<close>

text \<open>\<^verbatim>\<open>not v\<close> is \<open>\<not> truthy v\<close>.\<close>

fun truthy :: "json \<Rightarrow> bool" where
  "truthy JNull = False"
| "truthy (JBool b) = b"
| "truthy (JInt i) = (i \<noteq> 0)"
| "truthy (JDec d) = (d \<noteq> 0)"
| "truthy (JStr s) = (s \<noteq> [])"
| "truthy (JArr xs) = (xs \<noteq> [])"
| "truthy (JObj kvs) = (kvs \<noteq> [])"

definition dict_get :: "(string \<times> json) list \<Rightarrow> string \<Rightarrow> json option" where
  "dict_get kvs k = map_of (rev kvs) k"

text \<open>\<^verbatim>\<open>v.get(key, default)\<close>: only a dict has the method.\<close>

fun py_get :: "json \<Rightarrow> string \<Rightarrow> json \<Rightarrow> py_error + json" where
  "py_get (JObj kvs) k d = Inr (case dict_get kvs k of None \<Rightarrow> d | Some v \<Rightarrow> v)"
| "py_get _ k d = Inl AttributeError"

text \<open>\<^verbatim>\<open>len(v)\<close>: a list, a str and a dict have a length.\<close>

fun py_len :: "json \<Rightarrow> py_error + nat" where
  "py_len (JArr xs) = Inr (length xs)"
| "py_len (JStr s) = Inr (length s)"
| "py_len (JObj kvs) = Inr (length (remdups (map fst kvs)))"
| "py_len _ = Inl TypeError"

text \<open>
  \<^verbatim>\<open>for x in v\<close>: the elements of a list, the characters of a str, the keys of a
  dict.
\<close>

fun py_iter :: "json \<Rightarrow> py_error + json list" where
  "py_iter (JArr xs) = Inr xs"
| "py_iter (JStr s) = Inr (map (\<lambda>c. JStr [c]) s)"
| "py_iter (JObj kvs) = Inr (map JStr (remdups (map fst kvs)))"
| "py_iter _ = Inl TypeError"

text \<open>\<^verbatim>\<open>v[0]\<close>: a dict of a JSON document has string keys only, so \<^verbatim>\<open>v[0]\<close> is a KeyError.\<close>

fun py_index0 :: "json \<Rightarrow> py_error + json" where
  "py_index0 (JArr (x # xs)) = Inr x"
| "py_index0 (JArr []) = Inl IndexError"
| "py_index0 (JStr (c # s)) = Inr (JStr [c])"
| "py_index0 (JStr []) = Inl IndexError"
| "py_index0 (JObj kvs) = Inl KeyError"
| "py_index0 _ = Inl TypeError"

definition startswith :: "string \<Rightarrow> string \<Rightarrow> bool" where
  "startswith s p = (take (length p) s = p)"

definition endswith :: "string \<Rightarrow> string \<Rightarrow> bool" where
  "endswith s p = (length p \<le> length s \<and> drop (length s - length p) s = p)"

text \<open>\<^verbatim>\<open>s.find(c)\<close> for a one-character \<^verbatim>\<open>c\<close>: the lowest index, or -1.\<close>

fun str_find :: "string \<Rightarrow> char \<Rightarrow> int" where
  "str_find [] c = - 1"
| "str_find (x # xs) c =
     (if x = c then 0 else (let r = str_find xs c in if r < 0 then - 1 else r + 1))"

text \<open>\<^verbatim>\<open>s[lo:hi]\<close> and \<^verbatim>\<open>s[lo:]\<close>: a negative index counts from the end, and both are clamped.\<close>

definition slice_index :: "nat \<Rightarrow> int \<Rightarrow> nat" where
  "slice_index len i = (if i < 0 then nat (max 0 (int len + i)) else min len (nat i))"

definition py_slice :: "string \<Rightarrow> int \<Rightarrow> int \<Rightarrow> string" where
  "py_slice s lo hi =
     (let a = slice_index (length s) lo; b = slice_index (length s) hi
      in take (b - a) (drop a s))"

definition py_slice_from :: "string \<Rightarrow> int \<Rightarrow> string" where
  "py_slice_from s lo = drop (slice_index (length s) lo) s"

section \<open>The store\<close>

text \<open>
  Modelled from the spec: \<^verbatim>\<open>schema.sql\<close> is not among the sources. The tables and
  columns are those the SQL statements of \<^verbatim>\<open>import.py\<close> and \<^verbatim>\<open>fuzzy.py\<close> name; a row of
  \<^verbatim>\<open>dnb_meta\<close>, \<^verbatim>\<open>dnb_name\<close>, \<^verbatim>\<open>gaz_meta\<close> and \<^verbatim>\<open>gaz_name\<close> has an integer key \<^verbatim>\<open>id\<close> that
  the store assigns on insert, and \<^verbatim>\<open>dnb_id\<close> is unique in \<^verbatim>\<open>dnb_meta\<close> (the spec's
  data model); no other constraint is assumed.
\<close>

record dnb_meta_row =
  col_id :: nat
  col_dnb_id :: string
  col_pref_name :: sqlval
  col_owl_geonames :: sqlval
  col_owl_gnd :: sqlval
  col_owl_loc :: sqlval
  col_owl_viaf :: sqlval
  col_owl_wikidata :: sqlval

text \<open>
  \<^verbatim>\<open>dnb_name\<close>: id, dnb_meta_id, var_name. \<^verbatim>\<open>dnb_old_auth\<close>: dnb_meta_id, number,
  prefix, gnd_id. \<^verbatim>\<open>gaz_meta\<close>: id, pref_title. \<^verbatim>\<open>gaz_name\<close>: id, title.
  \<^verbatim>\<open>fuzzy_meta\<close>: dnb_meta_id, gaz_meta_id, jarow. \<^verbatim>\<open>fuzzy_name\<close>: dnb_name_id,
  gaz_name_id, jarow.
\<close>

record db =
  dnb_meta :: "dnb_meta_row list"
  dnb_name :: "(nat \<times> nat option \<times> sqlval) list"
  dnb_old_auth :: "(nat option \<times> sqlval \<times> sqlval \<times> sqlval) list"
  gaz_meta :: "(nat \<times> sqlval) list"
  gaz_name :: "(nat \<times> sqlval) list"
  fuzzy_meta :: "(nat \<times> nat \<times> rat) list"
  fuzzy_name :: "(nat \<times> nat \<times> rat) list"

text \<open>
  A connection: the tables as the open transaction sees them, and the store as it was
  persisted at each \<^verbatim>\<open>con.commit()\<close>, oldest first.
\<close>

record conn =
  work :: db
  commits :: "db list"

text \<open>The store right after the schema has been created in a new file: every table is empty.\<close>

definition empty_db :: db where
  "empty_db = \<lparr>dnb_meta = [], dnb_name = [], dnb_old_auth = [], gaz_meta = [], gaz_name = [],
     fuzzy_meta = [], fuzzy_name = []\<rparr>"

definition commit :: "conn \<Rightarrow> conn" where
  "commit c = c\<lparr>commits := commits c @ [work c]\<rparr>"

definition next_id :: "nat list \<Rightarrow> nat" where
  "next_id ids = Suc (fold max ids 0)"

text \<open>The PRAGMA statements change no table; the function ends with a commit.\<close>

definition db_pragma :: "conn \<Rightarrow> conn" where
  "db_pragma c = commit c"

section \<open>\<^verbatim>\<open>import.py\<close>: \<^verbatim>\<open>db_import_dnb\<close>\<close>

text \<open>Binding a Python value to a \<^verbatim>\<open>?\<close> of a statement.\<close>

fun bind_param :: "json \<Rightarrow> py_error + sqlval" where
  "bind_param JNull = Inr SNull"
| "bind_param (JStr s) = Inr (SText s)"
| "bind_param (JInt i) =
     (if - (2 ^ 63) \<le> i \<and> i < 2 ^ 63 then Inr (SInt i) else Inl OverflowError)"
| "bind_param (JBool b) = Inr (SInt (if b then 1 else 0))"
| "bind_param _ = Inl BindError"

definition bind_opt :: "string option \<Rightarrow> sqlval" where
  "bind_opt v = (case v of None \<Rightarrow> SNull | Some s \<Rightarrow> SText s)"

text \<open>\<^verbatim>\<open>(SELECT id FROM dnb_meta WHERE dnb_id = ?)\<close>: the first such row's id, or NULL.\<close>

definition parent_id :: "db \<Rightarrow> string \<Rightarrow> nat option" where
  "parent_id d k = map_option col_id (find (\<lambda>r. col_dnb_id r = k) (dnb_meta d))"

text \<open>Lines 74 to 84: the row built from one old authority number.\<close>

definition parse_old_auth :: "string \<Rightarrow> string option \<times> string option" where
  "parse_old_auth v =
     (let i = str_find v CHR ''(''; j = str_find v CHR '')''
      in if i = 0 \<and> j > 1 then (Some (py_slice v (i + 1) j), Some (py_slice_from v (j + 1)))
         else (None, None))"

fun old_auth_values :: "string \<times> json \<Rightarrow> py_error + (string \<times> string \<times> string option \<times> string option)" where
  "old_auth_values (k, JStr v) = Inr (k, v, fst (parse_old_auth v), snd (parse_old_auth v))"
| "old_auth_values (k, _) = Inl AttributeError"

fun mapE :: "('a \<Rightarrow> 'e + 'b) \<Rightarrow> 'a list \<Rightarrow> 'e + 'b list" where
  "mapE f [] = Inr []"
| "mapE f (x # xs) =
     (case f x of Inl e \<Rightarrow> Inl e
      | Inr y \<Rightarrow> (case mapE f xs of Inl e \<Rightarrow> Inl e | Inr ys \<Rightarrow> Inr (y # ys)))"

text \<open>
  One row of the first \<^verbatim>\<open>executemany\<close>: the value is bound, then the row is
  written. An exception leaves the rows written so far in the open transaction.
\<close>

definition insert_dnb_name :: "conn \<Rightarrow> string \<times> json \<Rightarrow> py_error \<times> conn + conn" where
  "insert_dnb_name c kv =
     (case bind_param (snd kv) of
        Inl e \<Rightarrow> Inl (e, c)
      | Inr v \<Rightarrow>
          Inr (c\<lparr>work := (work c)\<lparr>dnb_name := dnb_name (work c) @
                 [(next_id (map fst (dnb_name (work c))), parent_id (work c) (fst kv), v)]\<rparr>\<rparr>))"

definition insert_dnb_old_auth ::
  "string \<times> string \<times> string option \<times> string option \<Rightarrow> conn \<Rightarrow> conn" where
  "insert_dnb_old_auth r c =
     (case r of (k, number, prefix, gnd_id) \<Rightarrow>
        c\<lparr>work := (work c)\<lparr>dnb_old_auth := dnb_old_auth (work c) @
              [(parent_id (work c) k, SText number, bind_opt prefix, bind_opt gnd_id)]\<rparr>\<rparr>)"

text \<open>
  Lines 49 to 60: the parent row is inserted and committed. The parameters are bound
  first. The insert raises IntegrityError when the \<^verbatim>\<open>dnb_id\<close> is already stored (the
  handler in \<^verbatim>\<open>json_import_dnb\<close> reports it as "dnb id ... already exists"), and
  writes nothing then.
\<close>

definition insert_dnb_meta ::
  "conn \<Rightarrow> string \<Rightarrow> json \<Rightarrow> string option \<Rightarrow> string option \<Rightarrow> string option \<Rightarrow>
   string option \<Rightarrow> string option \<Rightarrow> py_error \<times> conn + conn" where
  "insert_dnb_meta c dnb_id pref_name owl_geonames owl_gnd owl_loc owl_viaf owl_wikidata =
     (case bind_param pref_name of
        Inl e \<Rightarrow> Inl (e, c)
      | Inr pn \<Rightarrow>
          if dnb_id \<in> set (map col_dnb_id (dnb_meta (work c))) then Inl (IntegrityError, c)
          else Inr (commit (c\<lparr>work := (work c)\<lparr>dnb_meta := dnb_meta (work c) @
                 [\<lparr>col_id = next_id (map col_id (dnb_meta (work c))),
                   col_dnb_id = dnb_id,
                   col_pref_name = pn,
                   col_owl_geonames = bind_opt owl_geonames,
                   col_owl_gnd = bind_opt owl_gnd,
                   col_owl_loc = bind_opt owl_loc,
                   col_owl_viaf = bind_opt owl_viaf,
                   col_owl_wikidata = bind_opt owl_wikidata\<rparr>]\<rparr>\<rparr>)))"

text \<open>Lines 62 to 68: the variant names, when the list is neither None nor empty.\<close>

definition insert_var_names :: "conn \<Rightarrow> (string \<times> json) list option \<Rightarrow> py_error \<times> conn + conn" where
  "insert_var_names c var_names =
     (case var_names of
        None \<Rightarrow> Inr c
      | Some [] \<Rightarrow> Inr c
      | Some vs \<Rightarrow> bindE (foldE insert_dnb_name c vs) (\<lambda>c'. Inr (commit c')))"

text \<open>Lines 70 to 91: the old authority numbers, when the list is neither None nor empty.\<close>

definition insert_old_auths :: "conn \<Rightarrow> (string \<times> json) list option \<Rightarrow> py_error \<times> conn + conn" where
  "insert_old_auths c old_auths =
     (case old_auths of
        None \<Rightarrow> Inr c
      | Some [] \<Rightarrow> Inr c
      | Some os \<Rightarrow>
          (case mapE old_auth_values os of
             Inl e \<Rightarrow> Inl (e, c)
           | Inr values \<Rightarrow> Inr (commit (fold insert_dnb_old_auth values c))))"

definition db_import_dnb ::
  "conn \<Rightarrow> string \<Rightarrow> json \<Rightarrow> string option \<Rightarrow> string option \<Rightarrow> string option \<Rightarrow>
   string option \<Rightarrow> string option \<Rightarrow> (string \<times> json) list option \<Rightarrow>
   (string \<times> json) list option \<Rightarrow> py_error \<times> conn + conn" where
  "db_import_dnb c dnb_id pref_name owl_geonames owl_gnd owl_loc owl_viaf owl_wikidata
     var_names old_auths =
     bindE (insert_dnb_meta c dnb_id pref_name owl_geonames owl_gnd owl_loc owl_viaf owl_wikidata)
       (\<lambda>c1. bindE (insert_var_names c1 var_names)
         (\<lambda>c2. insert_old_auths c2 old_auths))"

section \<open>\<^verbatim>\<open>import.py\<close>: \<^verbatim>\<open>json_import_dnb\<close>\<close>

definition owl_key :: string where
  "owl_key = ''http://www.w3.org/2002/07/owl#sameAs''"

definition pref_name_key :: string where
  "pref_name_key = ''https://d-nb.info/standards/elementset/gnd#preferredNameForThePlaceOrGeographicName''"

definition var_names_key :: string where
  "var_names_key = ''https://d-nb.info/standards/elementset/gnd#variantNameForThePlaceOrGeographicName''"

definition old_auths_key :: string where
  "old_auths_key = ''https://d-nb.info/standards/elementset/gnd#oldAuthorityNumber''"

definition dnb_ident :: string where
  "dnb_ident = ''https://d-nb.info/gnd/''"

definition owl_geonames_ident :: string where
  "owl_geonames_ident = ''https://sws.geonames.org/''"

definition owl_gnd_ident :: string where
  "owl_gnd_ident = ''https://d-nb.info/gnd/''"

definition owl_loc_ident :: string where
  "owl_loc_ident = ''http://id.loc.gov/rwo/agents/''"

definition owl_viaf_ident :: string where
  "owl_viaf_ident = ''http://viaf.org/viaf/''"

definition owl_wikidata_ident :: string where
  "owl_wikidata_ident = ''http://www.wikidata.org/entity/''"

text \<open>The five same-as variables of the loop body, None at the start of every object.\<close>

record same_as =
  owl_geonames :: "string option"
  owl_gnd :: "string option"
  owl_loc :: "string option"
  owl_viaf :: "string option"
  owl_wikidata :: "string option"

definition no_same_as :: same_as where
  "no_same_as = \<lparr>owl_geonames = None, owl_gnd = None, owl_loc = None, owl_viaf = None,
     owl_wikidata = None\<rparr>"

text \<open>Lines 208 to 221: five independent \<^verbatim>\<open>if\<close>s, each assigning its variable.\<close>

definition owl_assign :: "same_as \<Rightarrow> string \<Rightarrow> same_as" where
  "owl_assign a owl_value =
     (let a1 = (if startswith owl_value owl_geonames_ident
                then a\<lparr>owl_geonames := Some (drop (length owl_geonames_ident) owl_value)\<rparr> else a);
          a2 = (if startswith owl_value owl_gnd_ident
                then a1\<lparr>owl_gnd := Some (drop (length owl_gnd_ident) owl_value)\<rparr> else a1);
          a3 = (if startswith owl_value owl_loc_ident
                then a2\<lparr>owl_loc := Some (drop (length owl_loc_ident) owl_value)\<rparr> else a2);
          a4 = (if startswith owl_value owl_viaf_ident
                then a3\<lparr>owl_viaf := Some (drop (length owl_viaf_ident) owl_value)\<rparr> else a3)
      in if startswith owl_value owl_wikidata_ident
         then a4\<lparr>owl_wikidata := Some (drop (length owl_wikidata_ident) owl_value)\<rparr> else a4)"

text \<open>Lines 204 to 221: the body of the loop over the same-as list.\<close>

definition owl_entry :: "same_as \<Rightarrow> json \<Rightarrow> py_error + same_as" where
  "owl_entry a owl_obj =
     bindE (py_get owl_obj ''@id'' JNull)
       (\<lambda>owl_value.
          if \<not> truthy owl_value then Inr a
          else (case owl_value of JStr s \<Rightarrow> Inr (owl_assign a s) | _ \<Rightarrow> Inl AttributeError))"

text \<open>Lines 200 to 221.\<close>

definition owl_same_as :: "json \<Rightarrow> py_error + same_as" where
  "owl_same_as obj =
     bindE (py_get obj owl_key (JArr []))
       (\<lambda>owl_list. bindE (py_len owl_list)
          (\<lambda>l. if l > 0 then bindE (py_iter owl_list) (foldE owl_entry no_same_as)
                else Inr no_same_as))"

text \<open>Lines 223 to 227.\<close>

definition preferred_name :: "json \<Rightarrow> py_error + json" where
  "preferred_name obj =
     bindE (py_get obj pref_name_key (JArr []))
       (\<lambda>pref_list. bindE (py_len pref_list)
          (\<lambda>l. if l > 0 then bindE (py_index0 pref_list) (\<lambda>first. py_get first ''@value'' JNull)
                else Inr JNull))"

text \<open>Lines 235 to 238 and 247 to 250: the body of the loop over a list of values.\<close>

definition value_entry :: "string \<Rightarrow> (string \<times> json) list \<Rightarrow> json \<Rightarrow> py_error + (string \<times> json) list" where
  "value_entry dnb_id acc var_obj =
     bindE (py_get var_obj ''@value'' JNull)
       (\<lambda>value. Inr (if \<not> truthy value then acc else acc @ [(dnb_id, value)]))"

text \<open>
  Lines 229 to 238, and 242 to 250 with the other key: the list stays None when the
  property is absent or empty.
\<close>

definition value_list :: "string \<Rightarrow> json \<Rightarrow> string \<Rightarrow> py_error + (string \<times> json) list option" where
  "value_list key obj dnb_id =
     bindE (py_get obj key (JArr []))
       (\<lambda>var_list. bindE (py_len var_list)
          (\<lambda>l. if l > 0
                then bindE (bindE (py_iter var_list) (foldE (value_entry dnb_id) []))
                       (\<lambda>vs. Inr (Some vs))
                else Inr None))"

text \<open>Lines 186 to 198: the object's id, or why the object is passed over.\<close>

datatype ident = No_id | Ignored string | Dnb_id string

definition object_id :: "json \<Rightarrow> py_error + ident" where
  "object_id obj =
     bindE (py_get obj ''@id'' JNull)
       (\<lambda>obj_id.
          if \<not> truthy obj_id then Inr No_id
          else (case obj_id of
                  JStr s \<Rightarrow>
                    if \<not> startswith s dnb_ident \<or> endswith s ''/about'' then Inr (Ignored s)
                    else Inr (Dnb_id (drop (length dnb_ident) s))
                | _ \<Rightarrow> Inl AttributeError))"

text \<open>
  The messages handed to the logger, with the values they are formatted from. Which of
  them reach the console is the logger's level, set outside this function.
\<close>

datatype log_entry =
    Debug_reading
  | Debug_no_id nat
  | Debug_ignoring string
  | Debug_importing string nat
  | Info_imported nat
  | Warning_exists string

record import_state =
  con :: conn
  n :: nat
  log :: "log_entry list"

definition logger :: "log_entry \<Rightarrow> import_state \<Rightarrow> import_state" where
  "logger e st = st\<lparr>log := log st @ [e]\<rparr>"

text \<open>Lines 252 to 264: the write, the count and the handler of IntegrityError.\<close>

definition write_object ::
  "import_state \<Rightarrow> string \<Rightarrow> json \<Rightarrow> same_as \<Rightarrow> (string \<times> json) list option \<Rightarrow>
   (string \<times> json) list option \<Rightarrow> py_error \<times> import_state + import_state" where
  "write_object st dnb_id pref_name a var_names old_auths =
     (let st1 = logger (Debug_importing dnb_id (n st)) st
      in case db_import_dnb (con st1) dnb_id pref_name (owl_geonames a) (owl_gnd a) (owl_loc a)
                (owl_viaf a) (owl_wikidata a) var_names old_auths of
           Inr c \<Rightarrow>
             (let st2 = st1\<lparr>con := c, n := n st1 + 1\<rparr>
              in Inr (if n st2 mod 10000 = 0 then logger (Info_imported (n st2)) st2 else st2))
         | Inl (e, c) \<Rightarrow>
             if e = IntegrityError then Inr (logger (Warning_exists dnb_id) (st1\<lparr>con := c\<rparr>))
             else Inl (e, st1\<lparr>con := c\<rparr>))"

text \<open>Lines 175 to 264: the body of the loop over the objects of the document.\<close>

definition json_import_dnb_obj ::
  "bool \<Rightarrow> import_state \<Rightarrow> json \<Rightarrow> py_error \<times> import_state + import_state" where
  "json_import_dnb_obj old_auth st obj =
     (case object_id obj of
        Inl e \<Rightarrow> Inl (e, st)
      | Inr No_id \<Rightarrow> Inr (logger (Debug_no_id (n st)) st)
      | Inr (Ignored s) \<Rightarrow> Inr (logger (Debug_ignoring s) st)
      | Inr (Dnb_id dnb_id) \<Rightarrow>
          (case owl_same_as obj of
             Inl e \<Rightarrow> Inl (e, st)
           | Inr a \<Rightarrow>
               (case preferred_name obj of
                  Inl e \<Rightarrow> Inl (e, st)
                | Inr pref_name \<Rightarrow>
                    (case value_list var_names_key obj dnb_id of
                       Inl e \<Rightarrow> Inl (e, st)
                     | Inr var_names \<Rightarrow>
                         (case (if old_auth then value_list old_auths_key obj dnb_id else Inr None) of
                            Inl e \<Rightarrow> Inl (e, st)
                          | Inr old_auths \<Rightarrow>
                              write_object st dnb_id pref_name a var_names old_auths)))))"

text \<open>
  Lines 164 to 266, for the objects \<^verbatim>\<open>ijson\<close> yields from a well-formed document:
  the connection is opened (\<^verbatim>\<open>db_open\<close> runs the PRAGMAs), every object is
  processed in turn, and the total is logged. An exception that the loop body does not
  catch ends the run with the state reached.
\<close>

definition json_import_dnb ::
  "bool \<Rightarrow> conn \<Rightarrow> json list \<Rightarrow> py_error \<times> import_state + import_state" where
  "json_import_dnb old_auth c objects =
     bindE (foldE (json_import_dnb_obj old_auth)
              (logger Debug_reading \<lparr>con = db_pragma c, n = 0, log = []\<rparr>) objects)
       (\<lambda>st. Inr (logger (Info_imported (n st)) st))"

section \<open>\<^verbatim>\<open>fuzzy.py\<close>\<close>

text \<open>
  Scores and thresholds are rational numbers: every float is one, and the comparisons
  are exact. \<^verbatim>\<open>'{:.5f}'.format(threshold)\<close> writes the decimal with five places nearest
  to the float, a tie going to the even neighbour; the SQL literal is read at the value
  it denotes.
\<close>

definition round_half_even :: "rat \<Rightarrow> int" where
  "round_half_even x =
     (let f = \<lfloor>x\<rfloor>; d = x - of_int f
      in if d < 1 / 2 then f else if 1 / 2 < d then f + 1 else if even f then f else f + 1)"

definition format_5f :: "rat \<Rightarrow> rat" where
  "format_5f t = of_int (round_half_even (t * 100000)) / 100000"

text \<open>
  \<^verbatim>\<open>SELECT a.id, b.id, jaro_winkler(translit(a.text), translit(b.text)) AS jw
  FROM a CROSS JOIN b WHERE jw >= literal\<close>. The two functions are those of the
  extension library loaded by \<^verbatim>\<open>db_open\<close>; they are parameters here, and
  \<^verbatim>\<open>jaro_winkler\<close> returns a number or NULL (\<open>None\<close>), for which the comparison is not
  true.
\<close>

definition cross_join_where ::
  "(sqlval \<Rightarrow> sqlval) \<Rightarrow> (sqlval \<Rightarrow> sqlval \<Rightarrow> rat option) \<Rightarrow> (nat \<times> sqlval) list \<Rightarrow>
   (nat \<times> sqlval) list \<Rightarrow> rat \<Rightarrow> (nat \<times> nat \<times> rat) list" where
  "cross_join_where translit jaro_winkler as bs literal =
     concat (map (\<lambda>a. concat (map (\<lambda>b.
       (case jaro_winkler (translit (snd a)) (translit (snd b)) of
          None \<Rightarrow> []
        | Some jw \<Rightarrow> if literal \<le> jw then [(fst a, fst b, jw)] else [])) bs)) as)"

definition db_fuzzy_match_meta ::
  "(sqlval \<Rightarrow> sqlval) \<Rightarrow> (sqlval \<Rightarrow> sqlval \<Rightarrow> rat option) \<Rightarrow> conn \<Rightarrow> rat \<Rightarrow> conn" where
  "db_fuzzy_match_meta translit jaro_winkler c threshold =
     commit (c\<lparr>work := (work c)\<lparr>fuzzy_meta := fuzzy_meta (work c) @
       cross_join_where translit jaro_winkler
         (map (\<lambda>r. (col_id r, col_pref_name r)) (dnb_meta (work c)))
         (gaz_meta (work c)) (format_5f threshold)\<rparr>\<rparr>)"

definition db_fuzzy_match_names ::
  "(sqlval \<Rightarrow> sqlval) \<Rightarrow> (sqlval \<Rightarrow> sqlval \<Rightarrow> rat option) \<Rightarrow> conn \<Rightarrow> rat \<Rightarrow> conn" where
  "db_fuzzy_match_names translit jaro_winkler c threshold =
     commit (c\<lparr>work := (work c)\<lparr>fuzzy_name := fuzzy_name (work c) @
       cross_join_where translit jaro_winkler
         (map (\<lambda>r. (fst r, snd (snd r))) (dnb_name (work c)))
         (gaz_name (work c)) (format_5f threshold)\<rparr>\<rparr>)"

text \<open>\<^verbatim>\<open>db_init\<close>: the PRAGMAs, then both tables are emptied and the deletion is committed.\<close>

definition db_init :: "conn \<Rightarrow> conn" where
  "db_init c =
     (let c1 = db_pragma c
      in commit (c1\<lparr>work := (work c1)\<lparr>fuzzy_meta := [], fuzzy_name := []\<rparr>\<rparr>))"

text \<open>
  The parsed command line, as far as the run reads it, and the main block from
  \<^verbatim>\<open>db_init\<close> on (lines 152 to 160), for a connection that \<^verbatim>\<open>db_open\<close> returned.
  Reading the command line is not part of the model (\<^verbatim>\<open>parse_args\<close> as written calls
  \<^verbatim>\<open>parser.add_argumnet\<close>, a method that does not exist), nor are the messages that
  \<^verbatim>\<open>fuzzy.py\<close> logs.
\<close>

record args =
  arg_meta :: bool
  arg_names :: bool
  arg_threshold :: rat

definition fuzzy_main ::
  "(sqlval \<Rightarrow> sqlval) \<Rightarrow> (sqlval \<Rightarrow> sqlval \<Rightarrow> rat option) \<Rightarrow> args \<Rightarrow> conn \<Rightarrow> conn" where
  "fuzzy_main translit jaro_winkler a c =
     (let c1 = db_init c;
          c2 = (if arg_meta a then db_fuzzy_match_meta translit jaro_winkler c1 (arg_threshold a)
                else c1)
      in if arg_names a then db_fuzzy_match_names translit jaro_winkler c2 (arg_threshold a)
         else c2)"

section \<open>The Similarity Scorer\<close>

text \<open>
  Modelled from the spec: the function behind \<^verbatim>\<open>jaro_winkler\<close> is that of the extension
  library which \<^verbatim>\<open>db_open\<close> loads at run time; no source file of the repository
  defines it. What follows is section 4.3 of the specification, sentence by sentence,
  over rational numbers.

  "m = count of matching characters (characters equal and within a window of
  max(l1,l2)/2 - 1 positions of each other, each source character consumed at most once,
  matches scanned left to right)". Two positions are a whole number of positions apart,
  so the window is the same with and without rounding down the half; for two strings of
  length 1 it is negative.
\<close>

definition match_window :: "nat \<Rightarrow> nat \<Rightarrow> int" where
  "match_window l1 l2 = int (max l1 l2) div 2 - 1"

text \<open>
  One step of the scan: the character at position \<open>i\<close> of \<open>s1\<close> takes the leftmost
  character of \<open>s2\<close> that is equal, within the window and not yet consumed. The flags
  record which characters of either string are matched.
\<close>

definition jaro_step ::
  "string \<Rightarrow> string \<Rightarrow> bool list \<times> bool list \<Rightarrow> nat \<Rightarrow> bool list \<times> bool list" where
  "jaro_step s1 s2 fs i =
     (case find (\<lambda>j. \<not> snd fs ! j \<and> s2 ! j = s1 ! i \<and>
                      \<bar>int i - int j\<bar> \<le> match_window (length s1) (length s2))
             [0..<length s2] of
        None \<Rightarrow> fs
      | Some j \<Rightarrow> ((fst fs)[i := True], (snd fs)[j := True]))"

definition jaro_flags :: "string \<Rightarrow> string \<Rightarrow> bool list \<times> bool list" where
  "jaro_flags s1 s2 =
     foldl (jaro_step s1 s2) (replicate (length s1) False, replicate (length s2) False)
       [0..<length s1]"

text \<open>The matched characters of a string, in the order of the string.\<close>

definition matched :: "string \<Rightarrow> bool list \<Rightarrow> string" where
  "matched s f = map fst (filter snd (zip s f))"

text \<open>
  "t = number of transpositions among matched characters divided by 2": the matched
  characters of the two strings are compared position by position.
\<close>

definition transpositions :: "string \<Rightarrow> string \<Rightarrow> nat" where
  "transpositions s1 s2 =
     (let fs = jaro_flags s1 s2
      in length (filter (\<lambda>p. fst p \<noteq> snd p) (zip (matched s1 (fst fs)) (matched s2 (snd fs)))))"

text \<open>"Jaro = 0 if m = 0, else (1/3)(m/l1 + m/l2 + (m - t)/m)".\<close>

definition jaro :: "string \<Rightarrow> string \<Rightarrow> rat" where
  "jaro s1 s2 =
     (let m = of_nat (length (filter (\<lambda>b. b) (fst (jaro_flags s1 s2))));
          t = of_nat (transpositions s1 s2) / 2
      in if m = 0 then 0
         else (1 / 3) * (m / of_nat (length s1) + m / of_nat (length s2) + (m - t) / m))"

text \<open>"p = length of common prefix up to 4 characters".\<close>

definition common_prefix :: "string \<Rightarrow> string \<Rightarrow> nat" where
  "common_prefix s1 s2 = length (takeWhile (\<lambda>p. fst p = snd p) (zip (take 4 s1) (take 4 s2)))"

text \<open>
  "result = Jaro + p * 0.1 * (1 - Jaro)", and "two empty strings yield a defined value
  of 1.0 (both absent) or 0.0 per an explicit documented policy": the policy is the
  first argument, \<open>True\<close> for 1.0.
\<close>

definition scorer :: "bool \<Rightarrow> string \<Rightarrow> string \<Rightarrow> rat" where
  "scorer empty_is_one s1 s2 =
     (if s1 = [] \<and> s2 = [] then (if empty_is_one then 1 else 0)
      else jaro s1 s2 + of_nat (common_prefix s1 s2) * (1 / 10) * (1 - jaro s1 s2))"

section \<open>Properties of the import\<close>

lemma bindE_simps [simp]:
  "bindE (Inl e) f = Inl e" "bindE (Inr x) f = f x"
  by (simp_all add: bindE_def)

lemma bindE_eq_Inr:
  "bindE m f = Inr y \<longleftrightarrow> (\<exists>x. m = Inr x \<and> f x = Inr y)"
  by (cases m) simp_all

lemma parent_id_cong: "dnb_meta d1 = dnb_meta d2 \<Longrightarrow> parent_id d1 k = parent_id d2 k"
  by (simp add: parent_id_def)

lemma foldE_insert_dnb_name:
  "mapE bind_param (map snd vs) = Inr vals \<Longrightarrow>
     \<exists>rows. foldE insert_dnb_name c vs =
              Inr (c\<lparr>work := (work c)\<lparr>dnb_name := dnb_name (work c) @ rows\<rparr>\<rparr>) \<and>
            map snd rows = zip (map (\<lambda>kv. parent_id (work c) (fst kv)) vs) vals"
proof (induction vs arbitrary: c vals)
  case Nil
  then show ?case by simp
next
  case (Cons kv vs)
  from Cons.prems obtain v vals' where v: "bind_param (snd kv) = Inr v"
    and vals': "mapE bind_param (map snd vs) = Inr vals'" and vals: "vals = v # vals'"
    by (auto split: sum.splits)
  define r where "r = (next_id (map fst (dnb_name (work c))), parent_id (work c) (fst kv), v)"
  define c1 where "c1 = c\<lparr>work := (work c)\<lparr>dnb_name := dnb_name (work c) @ [r]\<rparr>\<rparr>"
  have step: "insert_dnb_name c kv = Inr c1"
    by (simp add: insert_dnb_name_def v c1_def r_def)
  from Cons.IH [OF vals', of c1] obtain rows where
    rows: "foldE insert_dnb_name c1 vs =
             Inr (c1\<lparr>work := (work c1)\<lparr>dnb_name := dnb_name (work c1) @ rows\<rparr>\<rparr>)"
      "map snd rows = zip (map (\<lambda>kv. parent_id (work c1) (fst kv)) vs) vals'"
    by blast
  have p: "\<And>k. parent_id (work c1) k = parent_id (work c) k"
    by (rule parent_id_cong) (simp add: c1_def)
  have "foldE insert_dnb_name c (kv # vs) =
          Inr (c\<lparr>work := (work c)\<lparr>dnb_name := dnb_name (work c) @ (r # rows)\<rparr>\<rparr>)"
    by (simp add: step rows(1)) (simp add: c1_def)
  moreover have "map snd (r # rows) = zip (map (\<lambda>kv. parent_id (work c) (fst kv)) (kv # vs)) vals"
    using rows(2) by (simp add: p vals r_def)
  ultimately show ?case by blast
qed

lemma foldE_insert_dnb_name_result:
  "foldE insert_dnb_name c vs = Inr c' \<Longrightarrow>
     \<exists>rows. c' = c\<lparr>work := (work c)\<lparr>dnb_name := dnb_name (work c) @ rows\<rparr>\<rparr> \<and>
            length rows = length vs \<and>
            mapE bind_param (map snd vs) = Inr (map (snd \<circ> snd) rows)"
proof (induction vs arbitrary: c)
  case Nil
  then show ?case by simp
next
  case (Cons kv vs)
  from Cons.prems obtain c1 where step: "insert_dnb_name c kv = Inr c1"
    and rest: "foldE insert_dnb_name c1 vs = Inr c'"
    by (auto split: sum.splits)
  from step obtain v where v: "bind_param (snd kv) = Inr v"
    and c1: "c1 = c\<lparr>work := (work c)\<lparr>dnb_name := dnb_name (work c) @
       [(next_id (map fst (dnb_name (work c))), parent_id (work c) (fst kv), v)]\<rparr>\<rparr>"
    by (auto simp: insert_dnb_name_def split: sum.splits)
  from Cons.IH [OF rest] obtain rows where
    rows: "c' = c1\<lparr>work := (work c1)\<lparr>dnb_name := dnb_name (work c1) @ rows\<rparr>\<rparr>"
      "length rows = length vs" "mapE bind_param (map snd vs) = Inr (map (snd \<circ> snd) rows)"
    by blast
  let ?r = "(next_id (map fst (dnb_name (work c))), parent_id (work c) (fst kv), v)"
  have "c' = c\<lparr>work := (work c)\<lparr>dnb_name := dnb_name (work c) @ (?r # rows)\<rparr>\<rparr>"
    unfolding rows(1) c1 by simp
  moreover have "length (?r # rows) = length (kv # vs)" using rows(2) by simp
  moreover have "mapE bind_param (map snd (kv # vs)) = Inr (map (snd \<circ> snd) (?r # rows))"
    using rows(3) v by simp
  ultimately show ?case by blast
qed

lemma foldE_insert_dnb_name_error:
  "foldE insert_dnb_name c vs = Inl (e, c') \<Longrightarrow>
     e \<noteq> IntegrityError \<and> dnb_meta (work c') = dnb_meta (work c) \<and>
     dnb_old_auth (work c') = dnb_old_auth (work c) \<and> commits c' = commits c"
proof (induction vs arbitrary: c)
  case Nil
  then show ?case by simp
next
  case (Cons kv vs)
  show ?case
  proof (cases "insert_dnb_name c kv")
    case (Inl x)
    with Cons.prems have x: "x = (e, c')" by simp
    from Inl x obtain "bind_param (snd kv) = Inl e" "c' = c"
      by (auto simp: insert_dnb_name_def split: sum.splits)
    moreover have "bind_param v \<noteq> Inl IntegrityError" for v
      by (cases v) auto
    ultimately show ?thesis by metis
  next
    case (Inr c1)
    with Cons.prems have "foldE insert_dnb_name c1 vs = Inl (e, c')" by simp
    from Cons.IH [OF this] Inr show ?thesis
      by (auto simp: insert_dnb_name_def split: sum.splits)
  qed
qed

lemma fold_insert_dnb_old_auth:
  "fold insert_dnb_old_auth values c =
     c\<lparr>work := (work c)\<lparr>dnb_old_auth := dnb_old_auth (work c) @
        map (\<lambda>(k, number, prefix, gnd_id).
               (parent_id (work c) k, SText number, bind_opt prefix, bind_opt gnd_id)) values\<rparr>\<rparr>"
proof (induction "values" arbitrary: c)
  case Nil
  show ?case by simp
next
  case (Cons r rs)
  show ?case
    by (cases r) (simp add: Cons.IH, simp add: insert_dnb_old_auth_def parent_id_def)
qed

lemma insert_dnb_meta_fresh:
  assumes "bind_param pn = Inr pv" "d \<notin> set (map col_dnb_id (dnb_meta (work c)))"
  shows "insert_dnb_meta c d pn g1 g2 g3 g4 g5 =
     Inr (commit (c\<lparr>work := (work c)\<lparr>dnb_meta := dnb_meta (work c) @
       [\<lparr>col_id = next_id (map col_id (dnb_meta (work c))), col_dnb_id = d, col_pref_name = pv,
         col_owl_geonames = bind_opt g1, col_owl_gnd = bind_opt g2, col_owl_loc = bind_opt g3,
         col_owl_viaf = bind_opt g4, col_owl_wikidata = bind_opt g5\<rparr>]\<rparr>\<rparr>))"
  using assms by (simp add: insert_dnb_meta_def)

lemma insert_dnb_meta_duplicate:
  assumes "bind_param pn = Inr pv" "d \<in> set (map col_dnb_id (dnb_meta (work c)))"
  shows "insert_dnb_meta c d pn g1 g2 g3 g4 g5 = Inl (IntegrityError, c)"
  using assms by (simp add: insert_dnb_meta_def)

lemma insert_dnb_meta_Inr:
  assumes "insert_dnb_meta c d pn g1 g2 g3 g4 g5 = Inr c1"
  shows "\<exists>pv. bind_param pn = Inr pv \<and> d \<notin> set (map col_dnb_id (dnb_meta (work c))) \<and>
     c1 = commit (c\<lparr>work := (work c)\<lparr>dnb_meta := dnb_meta (work c) @
       [\<lparr>col_id = next_id (map col_id (dnb_meta (work c))), col_dnb_id = d, col_pref_name = pv,
         col_owl_geonames = bind_opt g1, col_owl_gnd = bind_opt g2, col_owl_loc = bind_opt g3,
         col_owl_viaf = bind_opt g4, col_owl_wikidata = bind_opt g5\<rparr>]\<rparr>\<rparr>)"
  using assms by (auto simp: insert_dnb_meta_def split: sum.splits if_splits)

lemma insert_dnb_meta_Inl:
  assumes "insert_dnb_meta c d pn g1 g2 g3 g4 g5 = Inl (e, c')"
  shows "c' = c"
  using assms by (auto simp: insert_dnb_meta_def split: sum.splits if_splits)

lemma insert_var_names_Inr:
  assumes "insert_var_names c vn = Inr c'"
  shows "\<exists>rows. work c' = (work c)\<lparr>dnb_name := dnb_name (work c) @ rows\<rparr> \<and>
     length rows = length (case vn of None \<Rightarrow> [] | Some vs \<Rightarrow> vs) \<and>
     mapE bind_param (map snd (case vn of None \<Rightarrow> [] | Some vs \<Rightarrow> vs)) = Inr (map (snd \<circ> snd) rows) \<and>
     commits c' = commits c @ (if rows = [] then [] else [work c'])"
proof (cases "vn = None \<or> vn = Some []")
  case True
  with assms have "c' = c" by (auto simp: insert_var_names_def)
  with True show ?thesis by (intro exI [of _ "[]"]) auto
next
  case False
  then obtain v vs where vn: "vn = Some (v # vs)"
    by (cases vn; cases "the vn") auto
  with assms obtain c1 where c1: "foldE insert_dnb_name c (v # vs) = Inr c1" and c': "c' = commit c1"
    unfolding insert_var_names_def by (auto simp: bindE_eq_Inr)
  from foldE_insert_dnb_name_result [OF c1] obtain rows where
    rows: "c1 = c\<lparr>work := (work c)\<lparr>dnb_name := dnb_name (work c) @ rows\<rparr>\<rparr>"
      "length rows = length (v # vs)"
      "mapE bind_param (map snd (v # vs)) = Inr (map (snd \<circ> snd) rows)"
    by blast
  from rows(2) have ne: "rows \<noteq> []" by auto
  show ?thesis
    using rows(2,3) ne unfolding c' rows(1) vn
    by (intro exI [of _ rows]) (simp add: commit_def)
qed

lemma insert_var_names_nonempty:
  "vs \<noteq> [] \<Longrightarrow> insert_var_names c (Some vs) =
     bindE (foldE insert_dnb_name c vs) (\<lambda>c'. Inr (commit c'))"
  by (cases vs) (simp_all add: insert_var_names_def)

lemma insert_var_names_Inl:
  assumes "insert_var_names c vn = Inl (e, c')"
  shows "e \<noteq> IntegrityError \<and> dnb_meta (work c') = dnb_meta (work c) \<and>
     dnb_old_auth (work c') = dnb_old_auth (work c) \<and> commits c' = commits c"
proof (cases "vn = None \<or> vn = Some []")
  case True
  with assms show ?thesis by (auto simp: insert_var_names_def)
next
  case False
  then obtain vs where vn: "vn = Some vs" "vs \<noteq> []" by (cases vn) auto
  from assms have "foldE insert_dnb_name c vs = Inl (e, c')"
    unfolding vn(1) insert_var_names_nonempty [OF vn(2)]
    by (cases "foldE insert_dnb_name c vs") simp_all
  then show ?thesis by (rule foldE_insert_dnb_name_error)
qed

lemma mapE_old_auth_values_length:
  "mapE old_auth_values os = Inr vals \<Longrightarrow>
     length vals = length os \<and> map (\<lambda>r. JStr (fst (snd r))) vals = map snd os"
proof (induction os arbitrary: vals)
  case Nil
  then show ?case by simp
next
  case (Cons kv os)
  obtain k j where kv: "kv = (k, j)" by (cases kv) auto
  from Cons.prems kv obtain v where j: "j = JStr v"
    by (cases j) auto
  from Cons.prems kv j obtain vals' where
    "mapE old_auth_values os = Inr vals'" "vals = (k, v, fst (parse_old_auth v), snd (parse_old_auth v)) # vals'"
    by (auto split: sum.splits)
  with Cons.IH [of vals'] kv j show ?case by simp
qed

lemma mapE_old_auth_values_Inl:
  "mapE old_auth_values os = Inl e \<Longrightarrow> e = AttributeError"
proof (induction os)
  case Nil
  then show ?case by simp
next
  case (Cons kv os)
  obtain k j where kv: "kv = (k, j)" by (cases kv) auto
  from Cons show ?case unfolding kv
    by (cases j) (auto split: sum.splits)
qed

lemma insert_old_auths_nonempty:
  "os \<noteq> [] \<Longrightarrow> insert_old_auths c (Some os) =
     (case mapE old_auth_values os of
        Inl e \<Rightarrow> Inl (e, c)
      | Inr values \<Rightarrow> Inr (commit (fold insert_dnb_old_auth values c)))"
  by (cases os) (simp_all add: insert_old_auths_def)

lemma insert_old_auths_Inr:
  assumes "insert_old_auths c oa = Inr c'"
  shows "\<exists>rows strs. work c' = (work c)\<lparr>dnb_old_auth := dnb_old_auth (work c) @ rows\<rparr> \<and>
     map snd (case oa of None \<Rightarrow> [] | Some os \<Rightarrow> os) = map JStr strs \<and>
     map (fst \<circ> snd) rows = map SText strs \<and>
     commits c' = commits c @ (if rows = [] then [] else [work c'])"
proof (cases "oa = None \<or> oa = Some []")
  case True
  with assms have "c' = c" by (auto simp: insert_old_auths_def)
  with True show ?thesis by (intro exI [of _ "[]"]) auto
next
  case False
  then obtain os where oa: "oa = Some os" "os \<noteq> []" by (cases oa) auto
  from assms obtain vals where vals: "mapE old_auth_values os = Inr vals"
    and c': "c' = commit (fold insert_dnb_old_auth vals c)"
    unfolding oa(1) insert_old_auths_nonempty [OF oa(2)] by (auto split: sum.splits)
  from mapE_old_auth_values_length [OF vals]
  have len: "length vals = length os" and m: "map (\<lambda>r. JStr (fst (snd r))) vals = map snd os"
    by blast+
  with oa(2) have ne: "vals \<noteq> []" by auto
  let ?rows = "map (\<lambda>(k, number, prefix, gnd_id).
               (parent_id (work c) k, SText number, bind_opt prefix, bind_opt gnd_id)) vals"
  have "work c' = (work c)\<lparr>dnb_old_auth := dnb_old_auth (work c) @ ?rows\<rparr>"
    unfolding c' fold_insert_dnb_old_auth by (simp add: commit_def)
  moreover have "map snd (case oa of None \<Rightarrow> [] | Some os \<Rightarrow> os) = map JStr (map (fst \<circ> snd) vals)"
    using m by (simp add: oa(1) comp_def)
  moreover have "map (fst \<circ> snd) ?rows = map SText (map (fst \<circ> snd) vals)"
    by (simp add: comp_def case_prod_unfold)
  moreover have "commits c' = commits c @ (if ?rows = [] then [] else [work c'])"
    using ne unfolding c' fold_insert_dnb_old_auth by (simp add: commit_def)
  ultimately show ?thesis by blast
qed

lemma insert_old_auths_Inl:
  assumes "insert_old_auths c oa = Inl (e, c')"
  shows "e = AttributeError \<and> c' = c"
proof (cases "oa = None \<or> oa = Some []")
  case True
  with assms show ?thesis by (auto simp: insert_old_auths_def)
next
  case False
  then obtain os where oa: "oa = Some os" "os \<noteq> []" by (cases oa) auto
  from assms show ?thesis
    unfolding oa(1) insert_old_auths_nonempty [OF oa(2)]
    using mapE_old_auth_values_Inl [of os] by (auto split: sum.splits)
qed

lemma db_import_dnb_Inr:
  assumes "db_import_dnb c d pn g1 g2 g3 g4 g5 vn oa = Inr c'"
  shows "\<exists>pv nrows orows strs.
     bind_param pn = Inr pv \<and> d \<notin> set (map col_dnb_id (dnb_meta (work c))) \<and>
     mapE bind_param (map snd (case vn of None \<Rightarrow> [] | Some vs \<Rightarrow> vs)) = Inr (map (snd \<circ> snd) nrows) \<and>
     length nrows = length (case vn of None \<Rightarrow> [] | Some vs \<Rightarrow> vs) \<and>
     map snd (case oa of None \<Rightarrow> [] | Some os \<Rightarrow> os) = map JStr strs \<and>
     map (fst \<circ> snd) orows = map SText strs \<and>
     work c' = (work c)\<lparr>dnb_meta := dnb_meta (work c) @
         [\<lparr>col_id = next_id (map col_id (dnb_meta (work c))), col_dnb_id = d, col_pref_name = pv,
           col_owl_geonames = bind_opt g1, col_owl_gnd = bind_opt g2, col_owl_loc = bind_opt g3,
           col_owl_viaf = bind_opt g4, col_owl_wikidata = bind_opt g5\<rparr>],
       dnb_name := dnb_name (work c) @ nrows,
       dnb_old_auth := dnb_old_auth (work c) @ orows\<rparr> \<and>
     commits c' = commits c @
       [(work c')\<lparr>dnb_name := dnb_name (work c), dnb_old_auth := dnb_old_auth (work c)\<rparr>] @
       (if nrows = [] then [] else [(work c')\<lparr>dnb_old_auth := dnb_old_auth (work c)\<rparr>]) @
       (if orows = [] then [] else [work c'])"
proof -
  from assms obtain c1 c2 where
    c1: "insert_dnb_meta c d pn g1 g2 g3 g4 g5 = Inr c1" and
    c2: "insert_var_names c1 vn = Inr c2" and
    c3: "insert_old_auths c2 oa = Inr c'"
    unfolding db_import_dnb_def by (auto simp: bindE_eq_Inr)
  from insert_dnb_meta_Inr [OF c1] obtain pv where
    pv: "bind_param pn = Inr pv" "d \<notin> set (map col_dnb_id (dnb_meta (work c)))" and
    c1': "c1 = commit (c\<lparr>work := (work c)\<lparr>dnb_meta := dnb_meta (work c) @
       [\<lparr>col_id = next_id (map col_id (dnb_meta (work c))), col_dnb_id = d, col_pref_name = pv,
         col_owl_geonames = bind_opt g1, col_owl_gnd = bind_opt g2, col_owl_loc = bind_opt g3,
         col_owl_viaf = bind_opt g4, col_owl_wikidata = bind_opt g5\<rparr>]\<rparr>\<rparr>)"
    by blast
  from insert_var_names_Inr [OF c2] obtain nrows where
    n: "work c2 = (work c1)\<lparr>dnb_name := dnb_name (work c1) @ nrows\<rparr>"
      "length nrows = length (case vn of None \<Rightarrow> [] | Some vs \<Rightarrow> vs)"
      "mapE bind_param (map snd (case vn of None \<Rightarrow> [] | Some vs \<Rightarrow> vs)) = Inr (map (snd \<circ> snd) nrows)"
      "commits c2 = commits c1 @ (if nrows = [] then [] else [work c2])"
    by blast
  from insert_old_auths_Inr [OF c3] obtain orows strs where
    o: "work c' = (work c2)\<lparr>dnb_old_auth := dnb_old_auth (work c2) @ orows\<rparr>"
      "map snd (case oa of None \<Rightarrow> [] | Some os \<Rightarrow> os) = map JStr strs"
      "map (fst \<circ> snd) orows = map SText strs"
      "commits c' = commits c2 @ (if orows = [] then [] else [work c'])"
    by blast
  have w: "work c' = (work c)\<lparr>dnb_meta := dnb_meta (work c) @
         [\<lparr>col_id = next_id (map col_id (dnb_meta (work c))), col_dnb_id = d, col_pref_name = pv,
           col_owl_geonames = bind_opt g1, col_owl_gnd = bind_opt g2, col_owl_loc = bind_opt g3,
           col_owl_viaf = bind_opt g4, col_owl_wikidata = bind_opt g5\<rparr>],
       dnb_name := dnb_name (work c) @ nrows,
       dnb_old_auth := dnb_old_auth (work c) @ orows\<rparr>"
    unfolding o(1) n(1) c1' by (simp add: commit_def)
  have k: "commits c' = commits c @
       [(work c')\<lparr>dnb_name := dnb_name (work c), dnb_old_auth := dnb_old_auth (work c)\<rparr>] @
       (if nrows = [] then [] else [(work c')\<lparr>dnb_old_auth := dnb_old_auth (work c)\<rparr>]) @
       (if orows = [] then [] else [work c'])"
    unfolding o(4) n(4) w unfolding n(1) c1' by (simp add: commit_def)
  from pv n(2,3) o(2,3) w k show ?thesis by blast
qed

lemma db_import_dnb_duplicate:
  assumes "bind_param pn = Inr pv" "d \<in> set (map col_dnb_id (dnb_meta (work c)))"
  shows "db_import_dnb c d pn g1 g2 g3 g4 g5 vn oa = Inl (IntegrityError, c)"
  unfolding db_import_dnb_def insert_dnb_meta_duplicate [OF assms] by simp

lemma json_import_dnb_obj_write:
  assumes "object_id obj = Inr (Dnb_id d)" "owl_same_as obj = Inr a"
    "preferred_name obj = Inr pn" "value_list var_names_key obj d = Inr vn"
    "(if old_auth then value_list old_auths_key obj d else Inr None) = Inr oa"
  shows "json_import_dnb_obj old_auth st obj = write_object st d pn a vn oa"
  unfolding json_import_dnb_obj_def using assms by simp

lemma write_object_duplicate:
  assumes "bind_param pn = Inr pv" "d \<in> set (map col_dnb_id (dnb_meta (work (con st))))"
  shows "write_object st d pn a vn oa =
     Inr (st\<lparr>log := log st @ [Debug_importing d (n st), Warning_exists d]\<rparr>)"
proof -
  have "db_import_dnb (con st) d pn (owl_geonames a) (owl_gnd a) (owl_loc a) (owl_viaf a)
          (owl_wikidata a) vn oa = Inl (IntegrityError, con st)"
    using assms by (rule db_import_dnb_duplicate)
  then show ?thesis
    by (simp add: write_object_def logger_def Let_def)
qed

lemma write_object_Inr:
  assumes "write_object st d pn a vn oa = Inr st'" "n st' \<noteq> n st"
  shows "db_import_dnb (con st) d pn (owl_geonames a) (owl_gnd a) (owl_loc a) (owl_viaf a)
          (owl_wikidata a) vn oa = Inr (con st') \<and> n st' = Suc (n st)"
  using assms
  by (auto simp: write_object_def logger_def Let_def split: sum.splits if_splits)

lemma json_import_dnb_obj_Inr:
  assumes "json_import_dnb_obj old_auth st obj = Inr st'" "n st' \<noteq> n st"
  shows "\<exists>d a pn vn oa. object_id obj = Inr (Dnb_id d) \<and> owl_same_as obj = Inr a \<and>
     preferred_name obj = Inr pn \<and> value_list var_names_key obj d = Inr vn \<and>
     (if old_auth then value_list old_auths_key obj d else Inr None) = Inr oa \<and>
     write_object st d pn a vn oa = Inr st'"
  using assms unfolding json_import_dnb_obj_def
  by (auto simp: logger_def split: sum.splits ident.splits)

lemma str_find_first: "c \<notin> set p \<Longrightarrow> str_find (p @ c # v) c = int (length p)"
  by (induction p) (auto simp: Let_def)

lemma str_find_split:
  "0 \<le> str_find s c \<Longrightarrow> \<exists>p v. s = p @ c # v \<and> c \<notin> set p \<and> str_find s c = int (length p)"
proof (induction s)
  case Nil
  then show ?case by simp
next
  case (Cons x xs)
  show ?case
  proof (cases "x = c")
    case True
    then have "x # xs = [] @ c # xs \<and> c \<notin> set [] \<and> str_find (x # xs) c = int (length ([]::string))"
      by simp
    then show ?thesis by blast
  next
    case False
    with Cons.prems have "0 \<le> str_find xs c"
      by (auto simp: Let_def split: if_splits)
    with Cons.IH obtain p v where pv: "xs = p @ c # v" "c \<notin> set p" "str_find xs c = int (length p)"
      by blast
    with False have "x # xs = (x # p) @ c # v \<and> c \<notin> set (x # p) \<and> str_find (x # xs) c = int (length (x # p))"
      by (auto simp: Let_def)
    then show ?thesis by blast
  qed
qed

lemma parse_old_auth_form:
  assumes "P \<noteq> []" "CHR '')'' \<notin> set P"
  shows "parse_old_auth (''('' @ P @ '')'' @ V) = (Some P, Some V)"
proof -
  let ?v = "''('' @ P @ '')'' @ V"
  have j: "str_find ?v CHR '')'' = int (Suc (length P))"
    using str_find_first [of "CHR '')''" "''('' @ P" V] assms by simp
  have i: "str_find ?v CHR ''('' = 0" by simp
  have len: "length ?v = Suc (Suc (length P + length V))" by simp
  have a: "slice_index (length ?v) (0 + 1) = 1"
    unfolding len by (simp add: slice_index_def)
  have b: "slice_index (length ?v) (int (Suc (length P))) = Suc (length P)"
    unfolding len by (simp add: slice_index_def)
  have c: "slice_index (length ?v) (int (Suc (length P)) + 1) = Suc (Suc (length P))"
    unfolding len by (simp add: slice_index_def nat_add_distrib)
  have p: "py_slice ?v (0 + 1) (int (Suc (length P))) = P"
    unfolding py_slice_def a b by (simp add: Let_def)
  have g: "py_slice_from ?v (int (Suc (length P)) + 1) = V"
    unfolding py_slice_from_def c by simp
  have "0 < length P" using assms(1) by simp
  then have jj: "1 < int (Suc (length P))" by simp
  show ?thesis
    unfolding parse_old_auth_def i j Let_def using jj p g by simp
qed

lemma parse_old_auth_other:
  assumes "\<not> (\<exists>P V. v = ''('' @ P @ '')'' @ V \<and> P \<noteq> [] \<and> CHR '')'' \<notin> set P)"
  shows "parse_old_auth v = (None, None)"
proof (rule ccontr)
  assume a: "parse_old_auth v \<noteq> (None, None)"
  then have i: "str_find v CHR ''('' = 0" and j: "1 < str_find v CHR '')''"
    by (auto simp: parse_old_auth_def Let_def split: if_splits)
  from j obtain p w where pw: "v = p @ CHR '')'' # w" "CHR '')'' \<notin> set p" "str_find v CHR '')'' = int (length p)"
    using str_find_split [of v "CHR '')''"] by auto
  from j pw have lp: "1 < length p" by simp
  then obtain x q where p: "p = x # q" "q \<noteq> []" by (cases p) auto
  from i pw p have "x = CHR ''(''" by (auto simp: Let_def split: if_splits)
  with pw p have "v = ''('' @ q @ '')'' @ w \<and> q \<noteq> [] \<and> CHR '')'' \<notin> set q" by simp
  with assms show False by blast
qed

lemma mapE_old_auth_values:
  "mapE old_auth_values (map (\<lambda>(k, v). (k, JStr v)) kvs) =
     Inr (map (\<lambda>(k, v). (k, v, fst (parse_old_auth v), snd (parse_old_auth v))) kvs)"
  by (induction kvs) auto

lemma owl_assign_fields:
  "owl_geonames (owl_assign a s) =
     (if startswith s owl_geonames_ident then Some (drop (length owl_geonames_ident) s)
      else owl_geonames a)"
  "owl_gnd (owl_assign a s) =
     (if startswith s owl_gnd_ident then Some (drop (length owl_gnd_ident) s) else owl_gnd a)"
  "owl_loc (owl_assign a s) =
     (if startswith s owl_loc_ident then Some (drop (length owl_loc_ident) s) else owl_loc a)"
  "owl_viaf (owl_assign a s) =
     (if startswith s owl_viaf_ident then Some (drop (length owl_viaf_ident) s) else owl_viaf a)"
  "owl_wikidata (owl_assign a s) =
     (if startswith s owl_wikidata_ident then Some (drop (length owl_wikidata_ident) s)
      else owl_wikidata a)"
  by (simp_all add: owl_assign_def Let_def)

lemma owl_assign_unmatched:
  assumes "\<not> startswith s owl_geonames_ident" "\<not> startswith s owl_gnd_ident"
    "\<not> startswith s owl_loc_ident" "\<not> startswith s owl_viaf_ident"
    "\<not> startswith s owl_wikidata_ident"
  shows "owl_assign a s = a"
  using assms by (simp add: owl_assign_def Let_def)

lemma owl_assign_Nil: "owl_assign a [] = a"
  by (rule owl_assign_unmatched)
    (simp_all add: startswith_def owl_geonames_ident_def owl_gnd_ident_def owl_loc_ident_def
      owl_viaf_ident_def owl_wikidata_ident_def)

lemma owl_entry_iri: "owl_entry a (JObj [(''@id'', JStr s)]) = Inr (owl_assign a s)"
  by (simp add: owl_entry_def dict_get_def owl_assign_Nil)

lemma foldE_owl_entry:
  "foldE owl_entry a (map (\<lambda>s. JObj [(''@id'', JStr s)]) iris) =
     Inr (fold (\<lambda>s a. owl_assign a s) iris a)"
  by (induction iris arbitrary: a) (simp_all add: owl_entry_iri)

lemma last_match_step:
  "(case filter P (xs @ [x]) of [] \<Rightarrow> d | ms \<Rightarrow> Some (f (last ms))) =
     (if P x then Some (f x) else (case filter P xs of [] \<Rightarrow> d | ms \<Rightarrow> Some (f (last ms))))"
  by (cases "filter P xs") simp_all

lemma fold_owl_assign_snoc:
  "fold (\<lambda>s a. owl_assign a s) (iris @ [s]) a = owl_assign (fold (\<lambda>s a. owl_assign a s) iris a) s"
  by simp

lemma fold_owl_assign_last:
  "owl_geonames (fold (\<lambda>s a. owl_assign a s) iris a) =
     (case filter (\<lambda>s. startswith s owl_geonames_ident) iris of
        [] \<Rightarrow> owl_geonames a | ms \<Rightarrow> Some (drop (length owl_geonames_ident) (last ms)))"
  "owl_gnd (fold (\<lambda>s a. owl_assign a s) iris a) =
     (case filter (\<lambda>s. startswith s owl_gnd_ident) iris of
        [] \<Rightarrow> owl_gnd a | ms \<Rightarrow> Some (drop (length owl_gnd_ident) (last ms)))"
  "owl_loc (fold (\<lambda>s a. owl_assign a s) iris a) =
     (case filter (\<lambda>s. startswith s owl_loc_ident) iris of
        [] \<Rightarrow> owl_loc a | ms \<Rightarrow> Some (drop (length owl_loc_ident) (last ms)))"
  "owl_viaf (fold (\<lambda>s a. owl_assign a s) iris a) =
     (case filter (\<lambda>s. startswith s owl_viaf_ident) iris of
        [] \<Rightarrow> owl_viaf a | ms \<Rightarrow> Some (drop (length owl_viaf_ident) (last ms)))"
  "owl_wikidata (fold (\<lambda>s a. owl_assign a s) iris a) =
     (case filter (\<lambda>s. startswith s owl_wikidata_ident) iris of
        [] \<Rightarrow> owl_wikidata a | ms \<Rightarrow> Some (drop (length owl_wikidata_ident) (last ms)))"
proof (induction iris rule: rev_induct)
  case Nil
  {
    case 1 show ?case by simp
  next
    case 2 show ?case by simp
  next
    case 3 show ?case by simp
  next
    case 4 show ?case by simp
  next
    case 5 show ?case by simp
  }
next
  case (snoc s iris)
  {
    case 1 show ?case
      unfolding fold_owl_assign_snoc owl_assign_fields last_match_step snoc.IH by simp
  next
    case 2 show ?case
      unfolding fold_owl_assign_snoc owl_assign_fields last_match_step snoc.IH by simp
  next
    case 3 show ?case
      unfolding fold_owl_assign_snoc owl_assign_fields last_match_step snoc.IH by simp
  next
    case 4 show ?case
      unfolding fold_owl_assign_snoc owl_assign_fields last_match_step snoc.IH by simp
  next
    case 5 show ?case
      unfolding fold_owl_assign_snoc owl_assign_fields last_match_step snoc.IH by simp
  }
qed

lemma owl_same_as_list:
  assumes "dict_get kvs owl_key = Some (JArr es)"
  shows "owl_same_as (JObj kvs) = foldE owl_entry no_same_as es"
  using assms by (cases es) (simp_all add: owl_same_as_def)

lemma foldE_value_entry:
  "foldE (value_entry d) acc (map JObj ms) =
     Inr (acc @ map (Pair d) (filter truthy
       (map (\<lambda>m. case dict_get m ''@value'' of None \<Rightarrow> JNull | Some v \<Rightarrow> v) ms)))"
  by (induction ms arbitrary: acc) (simp_all add: value_entry_def)

lemma value_list_entries:
  assumes "dict_get kvs key = Some (JArr (map JObj ms))"
  shows "value_list key (JObj kvs) d =
     Inr (if ms = [] then None
          else Some (map (Pair d) (filter truthy
            (map (\<lambda>m. case dict_get m ''@value'' of None \<Rightarrow> JNull | Some v \<Rightarrow> v) ms))))"
  using assms by (simp add: value_list_def foldE_value_entry)

lemma truthy_string_values:
  "map (\<lambda>m. dict_get m ''@value'') ms = map (map_option JStr) xs \<Longrightarrow>
     filter truthy (map (\<lambda>m. case dict_get m ''@value'' of None \<Rightarrow> JNull | Some v \<Rightarrow> v) ms) =
       map JStr (filter (\<lambda>s. s \<noteq> []) (List.map_filter id xs))"
proof (induction ms arbitrary: xs)
  case Nil
  then show ?case by (simp add: List.map_filter_simps)
next
  case (Cons m ms)
  from Cons.prems obtain x xs' where xs: "xs = x # xs'"
    and x: "dict_get m ''@value'' = map_option JStr x"
    and r: "map (\<lambda>m. dict_get m ''@value'') ms = map (map_option JStr) xs'"
    by (cases xs) auto
  show ?case
    unfolding xs using Cons.IH [OF r] x
    by (cases x) (simp_all add: List.map_filter_simps)
qed

lemma mapE_bind_param_strings: "mapE bind_param (map JStr strs) = Inr (map SText strs)"
  by (induction strs) simp_all

lemma insert_var_names_strings:
  "\<exists>c'. insert_var_names c (if b then None else Some (map (\<lambda>s. (d, JStr s)) strs)) = Inr c'"
proof (cases "b \<or> strs = []")
  case True
  then show ?thesis by (auto simp: insert_var_names_def)
next
  case False
  have "mapE bind_param (map snd (map (\<lambda>s. (d, JStr s)) strs)) = Inr (map SText strs)"
    using mapE_bind_param_strings [of strs] by (simp add: comp_def)
  from foldE_insert_dnb_name [OF this, of c] obtain c1 where
    "foldE insert_dnb_name c (map (\<lambda>s. (d, JStr s)) strs) = Inr c1"
    by blast
  moreover from False have "map (\<lambda>s. (d, JStr s)) strs \<noteq> []" by simp
  ultimately show ?thesis
    using False by (simp add: insert_var_names_nonempty)
qed

lemma mapE_old_auth_values_strings:
  "\<exists>vals. mapE old_auth_values (map (\<lambda>s. (d, JStr s)) strs) = Inr vals"
  by (induction strs) auto

lemma insert_old_auths_strings:
  "\<exists>c'. insert_old_auths c (if b then None else Some (map (\<lambda>s. (d, JStr s)) strs)) = Inr c'"
proof (cases "b \<or> strs = []")
  case True
  then show ?thesis by (auto simp: insert_old_auths_def)
next
  case False
  then have ne: "map (\<lambda>s. (d, JStr s)) strs \<noteq> []" by simp
  from mapE_old_auth_values_strings [of d strs] obtain vals where
    "mapE old_auth_values (map (\<lambda>s. (d, JStr s)) strs) = Inr vals" by blast
  then show ?thesis
    using False by (simp add: insert_old_auths_nonempty [OF ne])
qed

lemma write_object_ok:
  assumes "db_import_dnb (con st) d pn (owl_geonames a) (owl_gnd a) (owl_loc a) (owl_viaf a)
          (owl_wikidata a) vn oa = Inr c'"
  shows "\<exists>st'. write_object st d pn a vn oa = Inr st' \<and> con st' = c' \<and> n st' = Suc (n st)"
  using assms by (simp add: write_object_def logger_def Let_def)

lemma count_unique_key:
  "distinct (map f xs) \<Longrightarrow> k \<in> set (map f xs) \<Longrightarrow> length (filter (\<lambda>r. f r = k) xs) = 1"
proof (induction xs)
  case Nil
  then show ?case by simp
next
  case (Cons x xs)
  show ?case
  proof (cases "f x = k")
    case True
    with Cons.prems have "k \<notin> f ` set xs" by auto
    then have "filter (\<lambda>r. f r = k) xs = []" by (auto simp: filter_empty_conv)
    with True show ?thesis by simp
  next
    case False
    with Cons show ?thesis by auto
  qed
qed

text \<open>The definitions that evaluate a run of the import on a concrete document.\<close>

lemmas import_defs =
  json_import_dnb_def json_import_dnb_obj_def object_id_def owl_same_as_def preferred_name_def
  value_list_def value_entry_def owl_entry_def owl_assign_def write_object_def db_import_dnb_def
  insert_dnb_meta_def insert_var_names_def insert_old_auths_def insert_dnb_name_def
  insert_dnb_old_auth_def logger_def commit_def db_pragma_def parent_id_def next_id_def
  bind_opt_def dict_get_def startswith_def endswith_def no_same_as_def empty_db_def Let_def
  owl_key_def pref_name_key_def var_names_key_def old_auths_key_def dnb_ident_def
  owl_geonames_ident_def owl_gnd_ident_def owl_loc_ident_def owl_viaf_ident_def
  owl_wikidata_ident_def parse_old_auth_def py_slice_def py_slice_from_def slice_index_def

text \<open>
  The stored ids stay pairwise distinct: whatever the outcome of a write, of a loop body
  or of a run, a store whose ids are distinct is left with distinct ids.
\<close>

lemma db_import_dnb_Inl:
  assumes "db_import_dnb c d pn g1 g2 g3 g4 g5 vn oa = Inl (e, c')"
  shows "(e = IntegrityError \<longrightarrow> c' = c) \<and>
     (dnb_meta (work c') = dnb_meta (work c) \<or>
      (\<exists>row. col_dnb_id row = d \<and> d \<notin> set (map col_dnb_id (dnb_meta (work c))) \<and>
         dnb_meta (work c') = dnb_meta (work c) @ [row]))"
proof (cases "insert_dnb_meta c d pn g1 g2 g3 g4 g5")
  case (Inl x)
  with assms have "insert_dnb_meta c d pn g1 g2 g3 g4 g5 = Inl (e, c')"
    by (simp add: db_import_dnb_def)
  from insert_dnb_meta_Inl [OF this] show ?thesis by simp
next
  case (Inr c1)
  from insert_dnb_meta_Inr [OF Inr] obtain pv where
    fresh: "d \<notin> set (map col_dnb_id (dnb_meta (work c)))" and
    c1: "c1 = commit (c\<lparr>work := (work c)\<lparr>dnb_meta := dnb_meta (work c) @
       [\<lparr>col_id = next_id (map col_id (dnb_meta (work c))), col_dnb_id = d, col_pref_name = pv,
         col_owl_geonames = bind_opt g1, col_owl_gnd = bind_opt g2, col_owl_loc = bind_opt g3,
         col_owl_viaf = bind_opt g4, col_owl_wikidata = bind_opt g5\<rparr>]\<rparr>\<rparr>)"
    by blast
  let ?row = "\<lparr>col_id = next_id (map col_id (dnb_meta (work c))), col_dnb_id = d, col_pref_name = pv,
         col_owl_geonames = bind_opt g1, col_owl_gnd = bind_opt g2, col_owl_loc = bind_opt g3,
         col_owl_viaf = bind_opt g4, col_owl_wikidata = bind_opt g5\<rparr>"
  have m1: "dnb_meta (work c1) = dnb_meta (work c) @ [?row]"
    by (simp add: c1 commit_def)
  show ?thesis
  proof (cases "insert_var_names c1 vn")
    case (Inl x)
    with assms Inr have v: "insert_var_names c1 vn = Inl (e, c')"
      by (simp add: db_import_dnb_def)
    from insert_var_names_Inl [OF v] have "e \<noteq> IntegrityError"
      and "dnb_meta (work c') = dnb_meta (work c1)" by simp_all
    with m1 fresh show ?thesis by auto
  next
    case (Inr c2)
    with assms \<open>insert_dnb_meta c d pn g1 g2 g3 g4 g5 = Inr c1\<close>
    have o: "insert_old_auths c2 oa = Inl (e, c')"
      by (simp add: db_import_dnb_def)
    from insert_old_auths_Inl [OF o] have e: "e = AttributeError" and c': "c' = c2" by simp_all
    from insert_var_names_Inr [OF Inr] obtain rows where
      "work c2 = (work c1)\<lparr>dnb_name := dnb_name (work c1) @ rows\<rparr>" by blast
    then have "dnb_meta (work c') = dnb_meta (work c) @ [?row]"
      by (simp add: c' m1)
    with e fresh show ?thesis by auto
  qed
qed

lemma db_import_dnb_distinct:
  assumes "distinct (map col_dnb_id (dnb_meta (work c)))"
    and "db_import_dnb c d pn g1 g2 g3 g4 g5 vn oa = Inr c' \<or>
         db_import_dnb c d pn g1 g2 g3 g4 g5 vn oa = Inl (e, c')"
  shows "distinct (map col_dnb_id (dnb_meta (work c')))"
  using assms(2)
proof
  assume "db_import_dnb c d pn g1 g2 g3 g4 g5 vn oa = Inr c'"
  from db_import_dnb_Inr [OF this] assms(1) show ?thesis by auto
next
  assume "db_import_dnb c d pn g1 g2 g3 g4 g5 vn oa = Inl (e, c')"
  from db_import_dnb_Inl [OF this] assms(1) show ?thesis by auto
qed

lemma json_import_dnb_obj_distinct:
  assumes "distinct (map col_dnb_id (dnb_meta (work (con st))))"
    and "json_import_dnb_obj old_auth st obj = Inr st' \<or>
         json_import_dnb_obj old_auth st obj = Inl (e, st')"
  shows "distinct (map col_dnb_id (dnb_meta (work (con st'))))"
proof -
  have w: "distinct (map col_dnb_id (dnb_meta (work (con st'))))"
    if "write_object st d pn a vn oa = Inr st' \<or> write_object st d pn a vn oa = Inl (e, st')"
    for d pn a vn oa
  proof (cases "db_import_dnb (con st) d pn (owl_geonames a) (owl_gnd a) (owl_loc a) (owl_viaf a)
          (owl_wikidata a) vn oa")
    case (Inl x)
    obtain e' c' where x: "x = (e', c')" by (cases x) auto
    from that Inl x have "con st' = c'"
      by (auto simp: write_object_def logger_def Let_def split: if_splits)
    moreover have "distinct (map col_dnb_id (dnb_meta (work c')))"
      using db_import_dnb_distinct [OF assms(1)] Inl x by blast
    ultimately show ?thesis by simp
  next
    case (Inr c')
    from that Inr have "con st' = c'"
      by (auto simp: write_object_def logger_def Let_def split: if_splits)
    moreover have "distinct (map col_dnb_id (dnb_meta (work c')))"
      using db_import_dnb_distinct [OF assms(1)] Inr by blast
    ultimately show ?thesis by simp
  qed
  from assms(2) show ?thesis
    unfolding json_import_dnb_obj_def
    using assms(1) w
    by (auto simp: logger_def split: sum.splits ident.splits)
qed

lemma foldE_json_import_dnb_obj_distinct:
  assumes "distinct (map col_dnb_id (dnb_meta (work (con st))))"
    and "foldE (json_import_dnb_obj old_auth) st objs = Inr st' \<or>
         foldE (json_import_dnb_obj old_auth) st objs = Inl (e, st')"
  shows "distinct (map col_dnb_id (dnb_meta (work (con st'))))"
  using assms
proof (induction objs arbitrary: st)
  case Nil
  then show ?case by simp
next
  case (Cons obj objs)
  show ?case
  proof (cases "json_import_dnb_obj old_auth st obj")
    case (Inl x)
    with Cons.prems(2) have "json_import_dnb_obj old_auth st obj = Inl (e, st')" by simp
    with json_import_dnb_obj_distinct [OF Cons.prems(1)] show ?thesis by blast
  next
    case (Inr st1)
    from json_import_dnb_obj_distinct [OF Cons.prems(1)] Inr
    have d1: "distinct (map col_dnb_id (dnb_meta (work (con st1))))" by blast
    from Cons.prems(2) Inr have
      "foldE (json_import_dnb_obj old_auth) st1 objs = Inr st' \<or>
       foldE (json_import_dnb_obj old_auth) st1 objs = Inl (e, st')"
      by simp
    from Cons.IH [OF d1 this] show ?thesis .
  qed
qed

lemma json_import_dnb_distinct:
  assumes "distinct (map col_dnb_id (dnb_meta (work c)))"
    and "json_import_dnb old_auth c objs = Inr st"
  shows "distinct (map col_dnb_id (dnb_meta (work (con st))))"
proof -
  from assms(2) obtain st1 where
    f: "foldE (json_import_dnb_obj old_auth)
          (logger Debug_reading \<lparr>con = db_pragma c, n = 0, log = []\<rparr>) objs = Inr st1"
    and st: "st = logger (Info_imported (n st1)) st1"
    unfolding json_import_dnb_def by (auto simp: bindE_eq_Inr)
  have "distinct (map col_dnb_id (dnb_meta (work (con
          (logger Debug_reading \<lparr>con = db_pragma c, n = 0, log = []\<rparr>)))))"
    using assms(1) by (simp add: logger_def db_pragma_def commit_def)
  from foldE_json_import_dnb_obj_distinct [OF this, of old_auth objs st1] f
  show ?thesis by (simp add: st logger_def)
qed

subsection \<open>C3: parsing of old authority numbers\<close>

text \<open>
  C3. A raw value of the form \<open>(P)V\<close> is an opening parenthesis at position 0, a
  non-empty prefix \<open>P\<close> that runs up to the first closing parenthesis (so \<open>P\<close> holds
  none), that closing parenthesis, and the remainder \<open>V\<close>: the row built for it has
  prefix \<open>P\<close> and gnd_id \<open>V\<close>. For every other value both are null. In all cases the
  row stored in \<^verbatim>\<open>dnb_old_auth\<close> carries the raw value, unchanged, in its number column,
  together with the prefix and gnd_id parsed from it.
\<close>

theorem old_authority_rows:
  "(\<forall>P V. P \<noteq> [] \<and> CHR '')'' \<notin> set P \<longrightarrow>
      parse_old_auth (''('' @ P @ '')'' @ V) = (Some P, Some V)) \<and>
   ((\<nexists>P V. v = ''('' @ P @ '')'' @ V \<and> P \<noteq> [] \<and> CHR '')'' \<notin> set P) \<longrightarrow>
      parse_old_auth v = (None, None)) \<and>
   (kvs \<noteq> [] \<longrightarrow>
      insert_old_auths c (Some (map (\<lambda>(k, v). (k, JStr v)) kvs)) =
        Inr (commit (c\<lparr>work := (work c)\<lparr>dnb_old_auth := dnb_old_auth (work c) @
               map (\<lambda>(k, v). (parent_id (work c) k, SText v,
                      bind_opt (fst (parse_old_auth v)), bind_opt (snd (parse_old_auth v)))) kvs\<rparr>\<rparr>)))"
proof (intro conjI allI impI)
  fix P V assume "P \<noteq> [] \<and> CHR '')'' \<notin> set P"
  then show "parse_old_auth (''('' @ P @ '')'' @ V) = (Some P, Some V)"
    using parse_old_auth_form [of P V] by blast
next
  assume "\<nexists>P V. v = ''('' @ P @ '')'' @ V \<and> P \<noteq> [] \<and> CHR '')'' \<notin> set P"
  then show "parse_old_auth v = (None, None)" by (rule parse_old_auth_other)
next
  assume ne: "kvs \<noteq> []"
  then have ne': "map (\<lambda>(k, v). (k, JStr v)) kvs \<noteq> []" by simp
  show "insert_old_auths c (Some (map (\<lambda>(k, v). (k, JStr v)) kvs)) =
        Inr (commit (c\<lparr>work := (work c)\<lparr>dnb_old_auth := dnb_old_auth (work c) @
               map (\<lambda>(k, v). (parent_id (work c) k, SText v,
                      bind_opt (fst (parse_old_auth v)), bind_opt (snd (parse_old_auth v)))) kvs\<rparr>\<rparr>))"
    unfolding insert_old_auths_nonempty [OF ne'] mapE_old_auth_values
    by (simp add: fold_insert_dnb_old_auth comp_def case_prod_unfold)
qed

text \<open>
  An instance: the two values of the specification's example, stored for one record.
\<close>

theorem old_authority_rows_witness:
  "parse_old_auth ''(DE-588)118540238'' = (Some ''DE-588'', Some ''118540238'') \<and>
   parse_old_auth ''118540238'' = (None, None) \<and>
   insert_old_auths \<lparr>work = empty_db, commits = []\<rparr>
       (Some [(''4000001-1'', JStr ''(DE-588)118540238''), (''4000001-1'', JStr ''118540238'')]) =
     Inr \<lparr>work = empty_db\<lparr>dnb_old_auth :=
              [(None, SText ''(DE-588)118540238'', SText ''DE-588'', SText ''118540238''),
               (None, SText ''118540238'', SNull, SNull)]\<rparr>,
           commits = [empty_db\<lparr>dnb_old_auth :=
              [(None, SText ''(DE-588)118540238'', SText ''DE-588'', SText ''118540238''),
               (None, SText ''118540238'', SNull, SNull)]\<rparr>]\<rparr>"
proof -
  note t = old_authority_rows [of "''118540238''"
      "[(''4000001-1'', ''(DE-588)118540238''), (''4000001-1'', ''118540238'')]"
      "\<lparr>work = empty_db, commits = []\<rparr>"]
  from t have "''DE-588'' \<noteq> [] \<and> CHR '')'' \<notin> set ''DE-588'' \<longrightarrow>
      parse_old_auth (''('' @ ''DE-588'' @ '')'' @ ''118540238'') = (Some ''DE-588'', Some ''118540238'')"
    by blast
  then have 1: "parse_old_auth ''(DE-588)118540238'' = (Some ''DE-588'', Some ''118540238'')"
    by simp
  have "\<nexists>P V. ''118540238'' = ''('' @ P @ '')'' @ V \<and> P \<noteq> [] \<and> CHR '')'' \<notin> set P"
    by simp
  with t have 2: "parse_old_auth ''118540238'' = (None, None)" by blast
  from t have "insert_old_auths \<lparr>work = empty_db, commits = []\<rparr>
      (Some (map (\<lambda>(k, v). (k, JStr v))
         [(''4000001-1'', ''(DE-588)118540238''), (''4000001-1'', ''118540238'')])) =
      Inr (commit (\<lparr>work = empty_db, commits = []\<rparr>\<lparr>work := (work \<lparr>work = empty_db, commits = []\<rparr>)
        \<lparr>dnb_old_auth := dnb_old_auth (work \<lparr>work = empty_db, commits = []\<rparr>) @
           map (\<lambda>(k, v). (parent_id (work \<lparr>work = empty_db, commits = []\<rparr>) k, SText v,
                  bind_opt (fst (parse_old_auth v)), bind_opt (snd (parse_old_auth v))))
             [(''4000001-1'', ''(DE-588)118540238''), (''4000001-1'', ''118540238'')]\<rparr>\<rparr>))"
    by blast
  then have 3: "insert_old_auths \<lparr>work = empty_db, commits = []\<rparr>
       (Some [(''4000001-1'', JStr ''(DE-588)118540238''), (''4000001-1'', JStr ''118540238'')]) =
     Inr \<lparr>work = empty_db\<lparr>dnb_old_auth :=
              [(None, SText ''(DE-588)118540238'', SText ''DE-588'', SText ''118540238''),
               (None, SText ''118540238'', SNull, SNull)]\<rparr>,
           commits = [empty_db\<lparr>dnb_old_auth :=
              [(None, SText ''(DE-588)118540238'', SText ''DE-588'', SText ''118540238''),
               (None, SText ''118540238'', SNull, SNull)]\<rparr>]\<rparr>"
    by (simp add: 1 2 commit_def parent_id_def bind_opt_def empty_db_def)
  from 1 2 3 show ?thesis by blast
qed

subsection \<open>C2: several same-as entries of one namespace\<close>

text \<open>
  C2, as amended. When an object is written whose same-as list consists of entries
  \<^verbatim>\<open>{"@id": iri}\<close>, the stored identifier of each of the five namespaces (geonames,
  GND, LOC, VIAF, Wikidata) is the one derived from the last entry, in list order, whose
  IRI starts with the namespace prefix, and is null when there is no such entry. An entry
  whose IRI matches no known prefix leaves all five identifiers unchanged.
\<close>

theorem same_as_last_match_wins:
  assumes "json_import_dnb_obj old_auth st (JObj kvs) = Inr st'" and "n st' \<noteq> n st"
    and "dict_get kvs owl_key = Some (JArr (map (\<lambda>s. JObj [(''@id'', JStr s)]) iris))"
  shows "(\<exists>row. dnb_meta (work (con st')) = dnb_meta (work (con st)) @ [row] \<and>
      col_owl_geonames row =
        (case filter (\<lambda>s. startswith s owl_geonames_ident) iris of
           [] \<Rightarrow> SNull | m # ms \<Rightarrow> SText (drop (length owl_geonames_ident) (last (m # ms)))) \<and>
      col_owl_gnd row =
        (case filter (\<lambda>s. startswith s owl_gnd_ident) iris of
           [] \<Rightarrow> SNull | m # ms \<Rightarrow> SText (drop (length owl_gnd_ident) (last (m # ms)))) \<and>
      col_owl_loc row =
        (case filter (\<lambda>s. startswith s owl_loc_ident) iris of
           [] \<Rightarrow> SNull | m # ms \<Rightarrow> SText (drop (length owl_loc_ident) (last (m # ms)))) \<and>
      col_owl_viaf row =
        (case filter (\<lambda>s. startswith s owl_viaf_ident) iris of
           [] \<Rightarrow> SNull | m # ms \<Rightarrow> SText (drop (length owl_viaf_ident) (last (m # ms)))) \<and>
      col_owl_wikidata row =
        (case filter (\<lambda>s. startswith s owl_wikidata_ident) iris of
           [] \<Rightarrow> SNull | m # ms \<Rightarrow> SText (drop (length owl_wikidata_ident) (last (m # ms))))) \<and>
    (\<not> startswith s owl_geonames_ident \<and> \<not> startswith s owl_gnd_ident \<and>
     \<not> startswith s owl_loc_ident \<and> \<not> startswith s owl_viaf_ident \<and>
     \<not> startswith s owl_wikidata_ident \<longrightarrow>
       owl_entry b (JObj [(''@id'', JStr s)]) = Inr b)"
proof (rule conjI)
  from json_import_dnb_obj_Inr [OF assms(1,2)] obtain d a pn vn oa where
    a: "owl_same_as (JObj kvs) = Inr a" and w: "write_object st d pn a vn oa = Inr st'"
    by blast
  from a have a': "a = fold (\<lambda>s a. owl_assign a s) iris no_same_as"
    unfolding owl_same_as_list [OF assms(3)] foldE_owl_entry by simp
  from write_object_Inr [OF w assms(2)]
  have "db_import_dnb (con st) d pn (owl_geonames a) (owl_gnd a) (owl_loc a) (owl_viaf a)
          (owl_wikidata a) vn oa = Inr (con st')"
    by blast
  from db_import_dnb_Inr [OF this] obtain pv where
    "dnb_meta (work (con st')) = dnb_meta (work (con st)) @
       [\<lparr>col_id = next_id (map col_id (dnb_meta (work (con st)))), col_dnb_id = d,
         col_pref_name = pv, col_owl_geonames = bind_opt (owl_geonames a),
         col_owl_gnd = bind_opt (owl_gnd a), col_owl_loc = bind_opt (owl_loc a),
         col_owl_viaf = bind_opt (owl_viaf a), col_owl_wikidata = bind_opt (owl_wikidata a)\<rparr>]"
    by auto
  then show "\<exists>row. dnb_meta (work (con st')) = dnb_meta (work (con st)) @ [row] \<and>
      col_owl_geonames row =
        (case filter (\<lambda>s. startswith s owl_geonames_ident) iris of
           [] \<Rightarrow> SNull | m # ms \<Rightarrow> SText (drop (length owl_geonames_ident) (last (m # ms)))) \<and>
      col_owl_gnd row =
        (case filter (\<lambda>s. startswith s owl_gnd_ident) iris of
           [] \<Rightarrow> SNull | m # ms \<Rightarrow> SText (drop (length owl_gnd_ident) (last (m # ms)))) \<and>
      col_owl_loc row =
        (case filter (\<lambda>s. startswith s owl_loc_ident) iris of
           [] \<Rightarrow> SNull | m # ms \<Rightarrow> SText (drop (length owl_loc_ident) (last (m # ms)))) \<and>
      col_owl_viaf row =
        (case filter (\<lambda>s. startswith s owl_viaf_ident) iris of
           [] \<Rightarrow> SNull | m # ms \<Rightarrow> SText (drop (length owl_viaf_ident) (last (m # ms)))) \<and>
      col_owl_wikidata row =
        (case filter (\<lambda>s. startswith s owl_wikidata_ident) iris of
           [] \<Rightarrow> SNull | m # ms \<Rightarrow> SText (drop (length owl_wikidata_ident) (last (m # ms))))"
    unfolding a' fold_owl_assign_last
    by (simp add: no_same_as_def bind_opt_def split: list.splits)
next
  show "\<not> startswith s owl_geonames_ident \<and> \<not> startswith s owl_gnd_ident \<and>
     \<not> startswith s owl_loc_ident \<and> \<not> startswith s owl_viaf_ident \<and>
     \<not> startswith s owl_wikidata_ident \<longrightarrow>
       owl_entry b (JObj [(''@id'', JStr s)]) = Inr b"
    by (simp add: owl_entry_iri owl_assign_unmatched)
qed

text \<open>
  An instance: five same-as entries, two of them in the geonames namespace and one that
  matches no prefix. The stored geonames identifier is the one of the later entry.
\<close>

theorem same_as_last_match_wins_witness:
  "let st0 = \<lparr>con = \<lparr>work = empty_db, commits = []\<rparr>, n = 0, log = []\<rparr>;
       iris = [''https://sws.geonames.org/2950159'', ''https://example.org/x'',
               ''https://sws.geonames.org/2950157'', ''http://viaf.org/viaf/15'',
               ''https://d-nb.info/gnd/4005728-8''];
       kvs = [(''@id'', JStr ''https://d-nb.info/gnd/4005728-8''),
              (owl_key, JArr (map (\<lambda>s. JObj [(''@id'', JStr s)]) iris))];
       st' = projr (json_import_dnb_obj False st0 (JObj kvs))
   in json_import_dnb_obj False st0 (JObj kvs) = Inr st' \<and> n st' \<noteq> n st0 \<and>
      dict_get kvs owl_key = Some (JArr (map (\<lambda>s. JObj [(''@id'', JStr s)]) iris)) \<and>
      (\<exists>row. dnb_meta (work (con st')) = [row] \<and>
         col_owl_geonames row = SText ''2950157'' \<and> col_owl_gnd row = SText ''4005728-8'' \<and>
         col_owl_loc row = SNull \<and> col_owl_viaf row = SText ''15'' \<and>
         col_owl_wikidata row = SNull)"
proof -
  let ?st0 = "\<lparr>con = \<lparr>work = empty_db, commits = []\<rparr>, n = 0, log = []\<rparr>"
  let ?iris = "[''https://sws.geonames.org/2950159'', ''https://example.org/x'',
               ''https://sws.geonames.org/2950157'', ''http://viaf.org/viaf/15'',
               ''https://d-nb.info/gnd/4005728-8'']"
  let ?kvs = "[(''@id'', JStr ''https://d-nb.info/gnd/4005728-8''),
              (owl_key, JArr (map (\<lambda>s. JObj [(''@id'', JStr s)]) ?iris))]"
  let ?st' = "projr (json_import_dnb_obj False ?st0 (JObj ?kvs))"
  have 1: "json_import_dnb_obj False ?st0 (JObj ?kvs) = Inr ?st'"
    by (simp add: import_defs)
  have 2: "n ?st' \<noteq> n ?st0"
    by (simp add: import_defs)
  have 3: "dict_get ?kvs owl_key = Some (JArr (map (\<lambda>s. JObj [(''@id'', JStr s)]) ?iris))"
    by (simp add: dict_get_def owl_key_def)
  from same_as_last_match_wins [OF 1 2 3]
  have "\<exists>row. dnb_meta (work (con ?st')) = dnb_meta (work (con ?st0)) @ [row] \<and>
      col_owl_geonames row =
        (case filter (\<lambda>s. startswith s owl_geonames_ident) ?iris of
           [] \<Rightarrow> SNull | m # ms \<Rightarrow> SText (drop (length owl_geonames_ident) (last (m # ms)))) \<and>
      col_owl_gnd row =
        (case filter (\<lambda>s. startswith s owl_gnd_ident) ?iris of
           [] \<Rightarrow> SNull | m # ms \<Rightarrow> SText (drop (length owl_gnd_ident) (last (m # ms)))) \<and>
      col_owl_loc row =
        (case filter (\<lambda>s. startswith s owl_loc_ident) ?iris of
           [] \<Rightarrow> SNull | m # ms \<Rightarrow> SText (drop (length owl_loc_ident) (last (m # ms)))) \<and>
      col_owl_viaf row =
        (case filter (\<lambda>s. startswith s owl_viaf_ident) ?iris of
           [] \<Rightarrow> SNull | m # ms \<Rightarrow> SText (drop (length owl_viaf_ident) (last (m # ms)))) \<and>
      col_owl_wikidata row =
        (case filter (\<lambda>s. startswith s owl_wikidata_ident) ?iris of
           [] \<Rightarrow> SNull | m # ms \<Rightarrow> SText (drop (length owl_wikidata_ident) (last (m # ms))))"
    by (rule conjunct1)
  then have 4: "\<exists>row. dnb_meta (work (con ?st')) = [row] \<and>
         col_owl_geonames row = SText ''2950157'' \<and> col_owl_gnd row = SText ''4005728-8'' \<and>
         col_owl_loc row = SNull \<and> col_owl_viaf row = SText ''15'' \<and>
         col_owl_wikidata row = SNull"
    by (simp add: empty_db_def startswith_def owl_geonames_ident_def owl_gnd_ident_def
        owl_loc_ident_def owl_viaf_ident_def owl_wikidata_ident_def)
  from 1 2 3 4 show ?thesis unfolding Let_def by blast
qed

text \<open>
  C2 as stated fails: with two geonames entries, 2950159 before 2950157, the stored
  identifier is 2950157, the one of the last entry, not of the first.
\<close>

theorem same_as_first_match_counterexample:
  "(case json_import_dnb False \<lparr>work = empty_db, commits = []\<rparr>
      [JObj [(''@id'', JStr ''https://d-nb.info/gnd/4005728-8''),
             (owl_key, JArr [JObj [(''@id'', JStr ''https://sws.geonames.org/2950159'')],
                             JObj [(''@id'', JStr ''https://sws.geonames.org/2950157'')]])]] of
      Inl e \<Rightarrow> []
    | Inr st \<Rightarrow> map col_owl_geonames (dnb_meta (work (con st)))) = [SText ''2950157'']"
  by (simp add: import_defs)

subsection \<open>C5: the commit points of one record\<close>

text \<open>
  C5, as amended. \<^verbatim>\<open>db_import_dnb\<close> commits an accepted record in up to three steps:
  first the parent row alone; then, when the record has variant names, all of its
  variant-name rows together; then, when it has old authority numbers, all of its
  old-authority rows together. At every commit point a child table therefore holds
  either none or all of the record's rows of that table, and the parent row is persisted
  before any of its children.
\<close>

theorem record_commit_points:
  assumes "db_import_dnb c d pn g1 g2 g3 g4 g5 vn oa = Inr c'"
  shows "\<exists>row nrows orows.
     col_dnb_id row = d \<and>
     length nrows = length (case vn of None \<Rightarrow> [] | Some vs \<Rightarrow> vs) \<and>
     length orows = length (case oa of None \<Rightarrow> [] | Some os \<Rightarrow> os) \<and>
     work c' = (work c)\<lparr>dnb_meta := dnb_meta (work c) @ [row],
                 dnb_name := dnb_name (work c) @ nrows,
                 dnb_old_auth := dnb_old_auth (work c) @ orows\<rparr> \<and>
     commits c' = commits c @
       [(work c)\<lparr>dnb_meta := dnb_meta (work c) @ [row]\<rparr>] @
       (if nrows = [] then []
        else [(work c)\<lparr>dnb_meta := dnb_meta (work c) @ [row],
                dnb_name := dnb_name (work c) @ nrows\<rparr>]) @
       (if orows = [] then [] else [work c'])"
proof -
  from db_import_dnb_Inr [OF assms] obtain pv nrows orows strs where
    n: "length nrows = length (case vn of None \<Rightarrow> [] | Some vs \<Rightarrow> vs)" and
    o1: "map snd (case oa of None \<Rightarrow> [] | Some os \<Rightarrow> os) = map JStr strs" and
    o2: "map (fst \<circ> snd) orows = map SText strs" and
    w: "work c' = (work c)\<lparr>dnb_meta := dnb_meta (work c) @
         [\<lparr>col_id = next_id (map col_id (dnb_meta (work c))), col_dnb_id = d, col_pref_name = pv,
           col_owl_geonames = bind_opt g1, col_owl_gnd = bind_opt g2, col_owl_loc = bind_opt g3,
           col_owl_viaf = bind_opt g4, col_owl_wikidata = bind_opt g5\<rparr>],
       dnb_name := dnb_name (work c) @ nrows,
       dnb_old_auth := dnb_old_auth (work c) @ orows\<rparr>" and
    k: "commits c' = commits c @
       [(work c')\<lparr>dnb_name := dnb_name (work c), dnb_old_auth := dnb_old_auth (work c)\<rparr>] @
       (if nrows = [] then [] else [(work c')\<lparr>dnb_old_auth := dnb_old_auth (work c)\<rparr>]) @
       (if orows = [] then [] else [work c'])"
    by blast
  let ?row = "\<lparr>col_id = next_id (map col_id (dnb_meta (work c))), col_dnb_id = d, col_pref_name = pv,
           col_owl_geonames = bind_opt g1, col_owl_gnd = bind_opt g2, col_owl_loc = bind_opt g3,
           col_owl_viaf = bind_opt g4, col_owl_wikidata = bind_opt g5\<rparr>"
  have o: "length orows = length (case oa of None \<Rightarrow> [] | Some os \<Rightarrow> os)"
    using arg_cong [OF o1, of length] arg_cong [OF o2, of length] by simp
  have k': "commits c' = commits c @
       [(work c)\<lparr>dnb_meta := dnb_meta (work c) @ [?row]\<rparr>] @
       (if nrows = [] then []
        else [(work c)\<lparr>dnb_meta := dnb_meta (work c) @ [?row],
                dnb_name := dnb_name (work c) @ nrows\<rparr>]) @
       (if orows = [] then [] else [work c'])"
    by (subst k) (simp add: w)
  have "col_dnb_id ?row = d" by simp
  with n o w k' show ?thesis by blast
qed

text \<open>
  An instance: a record with one variant name is committed in two steps, and the first
  commit point holds no variant name.
\<close>

theorem record_commit_points_witness:
  "let c = \<lparr>work = empty_db, commits = []\<rparr>;
       c' = projr (db_import_dnb c ''4005728-8'' (JStr ''Berlin'') None None None None None
                     (Some [(''4005728-8'', JStr ''Berlin (West)'')]) None)
   in db_import_dnb c ''4005728-8'' (JStr ''Berlin'') None None None None None
        (Some [(''4005728-8'', JStr ''Berlin (West)'')]) None = Inr c' \<and>
      length (commits c') = 2 \<and> dnb_name (hd (commits c')) = [] \<and>
      length (dnb_name (work c')) = 1"
proof -
  let ?c = "\<lparr>work = empty_db, commits = []\<rparr>"
  let ?c' = "projr (db_import_dnb ?c ''4005728-8'' (JStr ''Berlin'') None None None None None
                     (Some [(''4005728-8'', JStr ''Berlin (West)'')]) None)"
  have 1: "db_import_dnb ?c ''4005728-8'' (JStr ''Berlin'') None None None None None
        (Some [(''4005728-8'', JStr ''Berlin (West)'')]) None = Inr ?c'"
    by (simp add: import_defs)
  from record_commit_points [OF 1] obtain row nrows orows where
    r: "length nrows = length (case Some [(''4005728-8'', JStr ''Berlin (West)'')] of
           None \<Rightarrow> [] | Some vs \<Rightarrow> vs)"
      "length orows = length (case None :: (string \<times> json) list option of
           None \<Rightarrow> [] | Some os \<Rightarrow> os)"
      "work ?c' = (work ?c)\<lparr>dnb_meta := dnb_meta (work ?c) @ [row],
                 dnb_name := dnb_name (work ?c) @ nrows,
                 dnb_old_auth := dnb_old_auth (work ?c) @ orows\<rparr>"
      "commits ?c' = commits ?c @
       [(work ?c)\<lparr>dnb_meta := dnb_meta (work ?c) @ [row]\<rparr>] @
       (if nrows = [] then []
        else [(work ?c)\<lparr>dnb_meta := dnb_meta (work ?c) @ [row],
                dnb_name := dnb_name (work ?c) @ nrows\<rparr>]) @
       (if orows = [] then [] else [work ?c'])"
    by blast
  from r(1) have n: "length nrows = 1" by simp
  then have nn: "nrows \<noteq> []" by auto
  from r(2) have o: "orows = []" by simp
  have "length (commits ?c') = 2" unfolding r(4) using nn o by simp
  moreover have "dnb_name (hd (commits ?c')) = []" unfolding r(4) by (simp add: empty_db_def)
  moreover have "length (dnb_name (work ?c')) = 1" unfolding r(3) using n by (simp add: empty_db_def)
  ultimately show ?thesis using 1 unfolding Let_def by blast
qed

text \<open>
  C5 as stated fails: for a run over one object with one variant name, the persisted
  store at each commit point is listed as the stored ids and the stored variant names.
  After the PRAGMA commit comes a commit point at which the parent row is persisted and
  its variant name is not.
\<close>

theorem record_atomic_commit_counterexample:
  "(case json_import_dnb False \<lparr>work = empty_db, commits = []\<rparr>
      [JObj [(''@id'', JStr ''https://d-nb.info/gnd/4005728-8''),
             (var_names_key, JArr [JObj [(''@value'', JStr ''Berlin (West)'')]])]] of
      Inl e \<Rightarrow> []
    | Inr st \<Rightarrow> map (\<lambda>s. (map col_dnb_id (dnb_meta s), map (snd \<circ> snd) (dnb_name s)))
                 (commits (con st))) =
     [([], []), ([''4005728-8''], []), ([''4005728-8''], [SText ''Berlin (West)''])]"
  by (simp add: import_defs)

subsection \<open>C6: an id that is already stored\<close>



subsection \<open>C9: an object without \<^verbatim>\<open>@id\<close>\<close>

text \<open>
  C9, as amended. For an object that has no \<^verbatim>\<open>@id\<close> key the loop body stores nothing
  and commits nothing, hands one debug message to the logger that carries the current
  count of accepted records, leaves that count unchanged, and the loop goes on with the
  next object. The run keeps no count of rejected objects.
\<close>

theorem object_without_id_skipped:
  assumes "dict_get kvs ''@id'' = None"
  shows "json_import_dnb_obj old_auth st (JObj kvs) = Inr (st\<lparr>log := log st @ [Debug_no_id (n st)]\<rparr>) \<and>
     foldE (json_import_dnb_obj old_auth) st (JObj kvs # rest) =
       foldE (json_import_dnb_obj old_auth) (st\<lparr>log := log st @ [Debug_no_id (n st)]\<rparr>) rest"
  using assms by (simp add: json_import_dnb_obj_def object_id_def logger_def)

text \<open>An instance: an object with a name and no \<^verbatim>\<open>@id\<close>, met after seven accepted records.\<close>

theorem object_without_id_skipped_witness:
  "dict_get [(''name'', JStr ''Berlin'')] ''@id'' = None \<and>
   json_import_dnb_obj False \<lparr>con = \<lparr>work = empty_db, commits = []\<rparr>, n = 7, log = []\<rparr>
       (JObj [(''name'', JStr ''Berlin'')]) =
     Inr \<lparr>con = \<lparr>work = empty_db, commits = []\<rparr>, n = 7, log = [Debug_no_id 7]\<rparr> \<and>
   foldE (json_import_dnb_obj False) \<lparr>con = \<lparr>work = empty_db, commits = []\<rparr>, n = 7, log = []\<rparr>
       [JObj [(''name'', JStr ''Berlin'')]] =
     Inr \<lparr>con = \<lparr>work = empty_db, commits = []\<rparr>, n = 7, log = [Debug_no_id 7]\<rparr>"
proof -
  have 1: "dict_get [(''name'', JStr ''Berlin'')] ''@id'' = None"
    by (simp add: dict_get_def)
  from object_without_id_skipped [OF 1, of False
      "\<lparr>con = \<lparr>work = empty_db, commits = []\<rparr>, n = 7, log = []\<rparr>" "[]"] 1
  show ?thesis by simp
qed

text \<open>
  C9 as stated fails: the state of a run is the connection, the count \<open>n\<close> of accepted
  records and the messages logged. After a run over one object without \<^verbatim>\<open>@id\<close> the
  count is 0 and nothing else counts the object.
\<close>

theorem rejected_counter_counterexample:
  "json_import_dnb False \<lparr>work = empty_db, commits = []\<rparr> [JObj [(''name'', JStr ''Berlin'')]] =
     Inr \<lparr>con = \<lparr>work = empty_db, commits = [empty_db]\<rparr>, n = 0,
          log = [Debug_reading, Debug_no_id 0, Info_imported 0]\<rparr>"
  by (simp add: import_defs)

subsection \<open>C10: list entries without a value\<close>



section \<open>Properties of the Match Engine\<close>

lemma mem_cross_join_where:
  "(i, k, s) \<in> set (cross_join_where tr jw as bs lit) \<longleftrightarrow>
     (\<exists>a\<in>set as. \<exists>b\<in>set bs. i = fst a \<and> k = fst b \<and>
        jw (tr (snd a)) (tr (snd b)) = Some s \<and> lit \<le> s)"
  unfolding cross_join_where_def
  by (force split: option.splits if_splits)

lemma cross_join_where_antimono:
  assumes "l1 \<le> l2"
  shows "set (cross_join_where tr jw as bs l2) \<subseteq> set (cross_join_where tr jw as bs l1)"
proof
  fix x assume x: "x \<in> set (cross_join_where tr jw as bs l2)"
  obtain i k s where xs: "x = (i, k, s)" by (cases x) auto
  from x have "(i, k, s) \<in> set (cross_join_where tr jw as bs l2)" unfolding xs .
  then have "(i, k, s) \<in> set (cross_join_where tr jw as bs l1)"
    unfolding mem_cross_join_where using assms by force
  then show "x \<in> set (cross_join_where tr jw as bs l1)" unfolding xs .
qed

lemma round_half_even_bounds:
  "of_int (round_half_even x) \<le> x + 1 / 2" "x - 1 / 2 \<le> of_int (round_half_even x)"
  "\<lfloor>x\<rfloor> \<le> round_half_even x" "round_half_even x \<le> \<lfloor>x\<rfloor> + 1"
  unfolding round_half_even_def Let_def by (auto; linarith)+

lemma round_half_even_mono:
  assumes "x \<le> y"
  shows "round_half_even x \<le> round_half_even y"
proof (cases "\<lfloor>x\<rfloor> = \<lfloor>y\<rfloor>")
  case True
  with assms have "x - of_int \<lfloor>x\<rfloor> \<le> y - of_int \<lfloor>y\<rfloor>" by simp
  with True show ?thesis
    unfolding round_half_even_def Let_def by auto
next
  case False
  with assms have "\<lfloor>x\<rfloor> < \<lfloor>y\<rfloor>"
    using floor_mono [of x y] by linarith
  then have "round_half_even x \<le> \<lfloor>y\<rfloor>"
    using round_half_even_bounds(4) [of x] by linarith
  then show ?thesis
    using round_half_even_bounds(3) [of y] by linarith
qed

lemma format_5f_mono: "t1 \<le> t2 \<Longrightarrow> format_5f t1 \<le> format_5f t2"
proof -
  assume "t1 \<le> t2"
  then have "t1 * 100000 \<le> t2 * 100000" by simp
  then have "round_half_even (t1 * 100000) \<le> round_half_even (t2 * 100000)"
    by (rule round_half_even_mono)
  then show ?thesis
    unfolding format_5f_def by (simp add: divide_right_mono)
qed

lemma format_5f_fixed: "format_5f (of_int k / 100000) = of_int k / 100000"
  by (simp add: format_5f_def round_half_even_def)

lemma work_db_init:
  "work (db_init c) = (work c)\<lparr>fuzzy_meta := [], fuzzy_name := []\<rparr>"
  by (simp add: db_init_def db_pragma_def commit_def Let_def)

lemma commits_db_init:
  "commits (db_init c) = commits c @ [work c, (work c)\<lparr>fuzzy_meta := [], fuzzy_name := []\<rparr>]"
  by (simp add: db_init_def db_pragma_def commit_def Let_def)

lemma work_fuzzy_main:
  "work (fuzzy_main tr jw a c) =
     (work c)\<lparr>fuzzy_meta :=
        (if arg_meta a
         then cross_join_where tr jw (map (\<lambda>r. (col_id r, col_pref_name r)) (dnb_meta (work c)))
                (gaz_meta (work c)) (format_5f (arg_threshold a))
         else []),
      fuzzy_name :=
        (if arg_names a
         then cross_join_where tr jw (map (\<lambda>r. (fst r, snd (snd r))) (dnb_name (work c)))
                (gaz_name (work c)) (format_5f (arg_threshold a))
         else [])\<rparr>"
  by (simp add: fuzzy_main_def Let_def db_fuzzy_match_meta_def db_fuzzy_match_names_def
      commit_def work_db_init)

lemma commits_fuzzy_main_prefix:
  "take (length (commits c) + 2) (commits (fuzzy_main tr jw a c)) =
     commits c @ [work c, (work c)\<lparr>fuzzy_meta := [], fuzzy_name := []\<rparr>]"
  by (simp add: fuzzy_main_def Let_def db_fuzzy_match_meta_def db_fuzzy_match_names_def
      commit_def commits_db_init)

subsection \<open>C1: the comparison that retains a pair\<close>




subsection \<open>C7: a stricter threshold yields a subset\<close>

text \<open>
  C7. For the same categories and the same stored DNB and Gazetteer records, a run of the
  Match Engine with threshold \<open>t2 \<ge> t1\<close> leaves, in each category, a candidate set that
  is a subset of the one a run with \<open>t1\<close> leaves.
\<close>

theorem stricter_threshold_subset:
  assumes "t1 \<le> t2"
  shows "set (fuzzy_meta (work (fuzzy_main tr jw \<lparr>arg_meta = m, arg_names = nm, arg_threshold = t2\<rparr> c)))
           \<subseteq> set (fuzzy_meta (work (fuzzy_main tr jw \<lparr>arg_meta = m, arg_names = nm, arg_threshold = t1\<rparr> c))) \<and>
         set (fuzzy_name (work (fuzzy_main tr jw \<lparr>arg_meta = m, arg_names = nm, arg_threshold = t2\<rparr> c)))
           \<subseteq> set (fuzzy_name (work (fuzzy_main tr jw \<lparr>arg_meta = m, arg_names = nm, arg_threshold = t1\<rparr> c)))"
proof -
  have sub: "set (cross_join_where tr jw as bs (format_5f t2))
      \<subseteq> set (cross_join_where tr jw as bs (format_5f t1))" for as bs
    by (rule cross_join_where_antimono [OF format_5f_mono [OF assms]])
  show ?thesis
    unfolding work_fuzzy_main using sub by (simp add: subset_iff)
qed

theorem stricter_threshold_subset_witness:
  "let c = \<lparr>work = empty_db\<lparr>dnb_name := [(1, Some 1, SText ''Roma'')],
                 gaz_name := [(1, SText ''Roma''), (2, SText ''Rom'')]\<rparr>, commits = []\<rparr>;
       jw = (\<lambda>a b. if a = b then Some 1 else Some (17 / 20))
   in (4 / 5 :: rat) \<le> 9 / 10 \<and>
      set (fuzzy_meta (work (fuzzy_main (\<lambda>v. v) jw
             \<lparr>arg_meta = True, arg_names = True, arg_threshold = 9 / 10\<rparr> c)))
        \<subseteq> set (fuzzy_meta (work (fuzzy_main (\<lambda>v. v) jw
             \<lparr>arg_meta = True, arg_names = True, arg_threshold = 4 / 5\<rparr> c))) \<and>
      set (fuzzy_name (work (fuzzy_main (\<lambda>v. v) jw
             \<lparr>arg_meta = True, arg_names = True, arg_threshold = 9 / 10\<rparr> c)))
        \<subseteq> set (fuzzy_name (work (fuzzy_main (\<lambda>v. v) jw
             \<lparr>arg_meta = True, arg_names = True, arg_threshold = 4 / 5\<rparr> c)))"
proof -
  have h: "(4 / 5 :: rat) \<le> 9 / 10" by simp
  show ?thesis unfolding Let_def using h stricter_threshold_subset [OF h] by blast
qed

subsection \<open>C4: what a rerun deletes and leaves\<close>

text \<open>
  C4, as amended. Every run first deletes the stored candidates of both categories,
  whichever categories it was asked to match, and commits that deletion on its own
  (the second commit point of the run is the store with both tables empty); the
  candidates of each selected category are written and committed afterwards. Hence after
  a rerun with arguments \<open>a'\<close> the table of a selected category holds exactly the
  candidates determined by the threshold of \<open>a'\<close>, whatever the previous run \<open>a\<close>
  stored, and the table of a category that was not selected is empty.
\<close>

theorem rerun_replaces_candidates:
  "fuzzy_meta (work (fuzzy_main tr jw a' (fuzzy_main tr jw a c))) =
     (if arg_meta a'
      then cross_join_where tr jw (map (\<lambda>r. (col_id r, col_pref_name r)) (dnb_meta (work c)))
             (gaz_meta (work c)) (format_5f (arg_threshold a'))
      else []) \<and>
   fuzzy_name (work (fuzzy_main tr jw a' (fuzzy_main tr jw a c))) =
     (if arg_names a'
      then cross_join_where tr jw (map (\<lambda>r. (fst r, snd (snd r))) (dnb_name (work c)))
             (gaz_name (work c)) (format_5f (arg_threshold a'))
      else []) \<and>
   take (length (commits c) + 2) (commits (fuzzy_main tr jw a c)) =
     commits c @ [work c, (work c)\<lparr>fuzzy_meta := [], fuzzy_name := []\<rparr>]"
proof (intro conjI)
  show "take (length (commits c) + 2) (commits (fuzzy_main tr jw a c)) =
     commits c @ [work c, (work c)\<lparr>fuzzy_meta := [], fuzzy_name := []\<rparr>]"
    by (rule commits_fuzzy_main_prefix)
qed (simp_all add: work_fuzzy_main)

theorem rerun_replaces_candidates_witness:
  "fuzzy_name (work (fuzzy_main (\<lambda>v. v) (\<lambda>a b. Some (17 / 20))
      \<lparr>arg_meta = False, arg_names = True, arg_threshold = 4 / 5\<rparr>
      \<lparr>work = empty_db\<lparr>dnb_name := [(1, Some 1, SText ''Roma'')], gaz_name := [(1, SText ''Rom'')]\<rparr>,
        commits = []\<rparr>)) = [(1, 1, 17 / 20)] \<and>
   fuzzy_name (work (fuzzy_main (\<lambda>v. v) (\<lambda>a b. Some (17 / 20))
      \<lparr>arg_meta = False, arg_names = True, arg_threshold = 9 / 10\<rparr>
      (fuzzy_main (\<lambda>v. v) (\<lambda>a b. Some (17 / 20))
         \<lparr>arg_meta = False, arg_names = True, arg_threshold = 4 / 5\<rparr>
         \<lparr>work = empty_db\<lparr>dnb_name := [(1, Some 1, SText ''Roma'')], gaz_name := [(1, SText ''Rom'')]\<rparr>,
           commits = []\<rparr>))) = []"
proof -
  let ?c = "\<lparr>work = empty_db\<lparr>dnb_name := [(1, Some 1, SText ''Roma'')], gaz_name := [(1, SText ''Rom'')]\<rparr>,
           commits = []\<rparr>"
  let ?a = "\<lparr>arg_meta = False, arg_names = True, arg_threshold = 4 / 5\<rparr>"
  let ?a' = "\<lparr>arg_meta = False, arg_names = True, arg_threshold = 9 / 10\<rparr>"
  have 1: "fuzzy_name (work (fuzzy_main (\<lambda>v. v) (\<lambda>a b. Some (17 / 20)) ?a ?c)) = [(1, 1, 17 / 20)]"
    by (simp add: work_fuzzy_main cross_join_where_def empty_db_def format_5f_def
        round_half_even_def)
  have 2: "fuzzy_name (work (fuzzy_main (\<lambda>v. v) (\<lambda>a b. Some (17 / 20)) ?a'
             (fuzzy_main (\<lambda>v. v) (\<lambda>a b. Some (17 / 20)) ?a ?c))) = []"
    using rerun_replaces_candidates [of "\<lambda>v. v" "\<lambda>a b. Some (17 / 20)" ?a' ?a ?c]
    by (simp add: cross_join_where_def empty_db_def format_5f_def round_half_even_def)
  from 1 2 show ?thesis by blast
qed

text \<open>
  C4 as stated fails: a run that matches the meta category only also deletes the stored
  candidates of the name category.
\<close>

theorem rerun_only_that_category_counterexample:
  "fuzzy_name (work \<lparr>work = empty_db\<lparr>fuzzy_name := [(1, 1, 9 / 10)]\<rparr>, commits = []\<rparr>) = [(1, 1, 9 / 10)] \<and>
   fuzzy_name (work (fuzzy_main (\<lambda>v. v) (\<lambda>a b. Some 1)
      \<lparr>arg_meta = True, arg_names = False, arg_threshold = 4 / 5\<rparr>
      \<lparr>work = empty_db\<lparr>fuzzy_name := [(1, 1, 9 / 10)]\<rparr>, commits = []\<rparr>)) = []"
  by (simp add: fuzzy_main_def db_init_def db_pragma_def db_fuzzy_match_meta_def commit_def
      cross_join_where_def empty_db_def Let_def)

section \<open>Properties of the Similarity Scorer\<close>

lemma count_true_update:
  assumes "j < length f" "\<not> f ! j"
  shows "length (filter (\<lambda>b. b) (f[j := True])) = Suc (length (filter (\<lambda>b. b) f))"
proof -
  have f: "f = take j f @ f ! j # drop (Suc j) f"
    using assms(1) by (rule id_take_nth_drop)
  have u: "f[j := True] = take j f @ True # drop (Suc j) f"
    using assms(1) by (rule upd_conv_take_nth_drop)
  have "length (filter (\<lambda>b. b) f) = length (filter (\<lambda>b. b) (take j f)) + length (filter (\<lambda>b. b) (drop (Suc j) f))"
    by (subst f) (simp add: assms(2))
  moreover have "length (filter (\<lambda>b. b) (f[j := True])) =
      Suc (length (filter (\<lambda>b. b) (take j f)) + length (filter (\<lambda>b. b) (drop (Suc j) f)))"
    unfolding u by simp
  ultimately show ?thesis by simp
qed

lemma jaro_step_Some:
  assumes "find (\<lambda>j. \<not> snd fs ! j \<and> s2 ! j = s1 ! i \<and>
                      \<bar>int i - int j\<bar> \<le> match_window (length s1) (length s2))
             [0..<length s2] = Some j"
  shows "j < length s2 \<and> \<not> snd fs ! j \<and> jaro_step s1 s2 fs i = ((fst fs)[i := True], (snd fs)[j := True])"
proof -
  from assms have "j \<in> set [0..<length s2]" and "\<not> snd fs ! j"
    by (auto simp: find_Some_iff)
  then show ?thesis using assms by (simp add: jaro_step_def)
qed

text \<open>The flags after the scan of the first \<open>k\<close> positions of \<open>s1\<close>.\<close>

lemma jaro_scan_invariant:
  assumes "k \<le> length s1"
  shows "length (fst (foldl (jaro_step s1 s2) (replicate (length s1) False, replicate (length s2) False) [0..<k])) = length s1 \<and>
     length (snd (foldl (jaro_step s1 s2) (replicate (length s1) False, replicate (length s2) False) [0..<k])) = length s2 \<and>
     length (filter (\<lambda>b. b) (fst (foldl (jaro_step s1 s2) (replicate (length s1) False, replicate (length s2) False) [0..<k]))) =
       length (filter (\<lambda>b. b) (snd (foldl (jaro_step s1 s2) (replicate (length s1) False, replicate (length s2) False) [0..<k]))) \<and>
     (\<forall>i. k \<le> i \<and> i < length s1 \<longrightarrow>
        \<not> fst (foldl (jaro_step s1 s2) (replicate (length s1) False, replicate (length s2) False) [0..<k]) ! i)"
  using assms
proof (induction k)
  case 0
  show ?case by simp
next
  case (Suc k)
  let ?fs = "foldl (jaro_step s1 s2) (replicate (length s1) False, replicate (length s2) False) [0..<k]"
  have kle: "k \<le> length s1" using Suc.prems by simp
  from Suc.IH [OF kle] have ih: "length (fst ?fs) = length s1" "length (snd ?fs) = length s2"
    "length (filter (\<lambda>b. b) (fst ?fs)) = length (filter (\<lambda>b. b) (snd ?fs))"
    "\<forall>i. k \<le> i \<and> i < length s1 \<longrightarrow> \<not> fst ?fs ! i"
    by blast+
  have k: "k < length s1" using Suc.prems by simp
  have step: "foldl (jaro_step s1 s2) (replicate (length s1) False, replicate (length s2) False) [0..<Suc k] =
      jaro_step s1 s2 ?fs k"
    by simp
  show ?case
  proof (cases "find (\<lambda>j. \<not> snd ?fs ! j \<and> s2 ! j = s1 ! k \<and>
                      \<bar>int k - int j\<bar> \<le> match_window (length s1) (length s2)) [0..<length s2]")
    case None
    then have "jaro_step s1 s2 ?fs k = ?fs" by (simp add: jaro_step_def)
    with ih show ?thesis unfolding step by simp
  next
    case (Some j)
    from jaro_step_Some [OF Some] have j: "j < length s2" "\<not> snd ?fs ! j"
      and r: "jaro_step s1 s2 ?fs k = ((fst ?fs)[k := True], (snd ?fs)[j := True])"
      by blast+
    have nk: "\<not> fst ?fs ! k" using ih(4) k by simp
    have c1: "length (filter (\<lambda>b. b) ((fst ?fs)[k := True])) = Suc (length (filter (\<lambda>b. b) (fst ?fs)))"
      using k nk ih(1) by (intro count_true_update) simp_all
    have c2: "length (filter (\<lambda>b. b) ((snd ?fs)[j := True])) = Suc (length (filter (\<lambda>b. b) (snd ?fs)))"
      using j ih(2) by (intro count_true_update) simp_all
    have rest: "\<forall>i. Suc k \<le> i \<and> i < length s1 \<longrightarrow> \<not> ((fst ?fs)[k := True]) ! i"
      using ih(4) by (simp add: nth_list_update)
    show ?thesis
      unfolding step r using ih(1,2,3) c1 c2 rest by simp
  qed
qed

lemma jaro_flags_props:
  "length (fst (jaro_flags s1 s2)) = length s1"
  "length (snd (jaro_flags s1 s2)) = length s2"
  "length (filter (\<lambda>b. b) (fst (jaro_flags s1 s2))) = length (filter (\<lambda>b. b) (snd (jaro_flags s1 s2)))"
  using jaro_scan_invariant [of "length s1" s1 s2] by (simp_all add: jaro_flags_def)

lemma matches_le:
  "length (filter (\<lambda>b. b) (fst (jaro_flags s1 s2))) \<le> length s1"
  "length (filter (\<lambda>b. b) (fst (jaro_flags s1 s2))) \<le> length s2"
proof -
  show "length (filter (\<lambda>b. b) (fst (jaro_flags s1 s2))) \<le> length s1"
    using length_filter_le [of "\<lambda>b. b" "fst (jaro_flags s1 s2)"] by (simp add: jaro_flags_props(1))
  show "length (filter (\<lambda>b. b) (fst (jaro_flags s1 s2))) \<le> length s2"
    using length_filter_le [of "\<lambda>b. b" "snd (jaro_flags s1 s2)"]
    by (simp add: jaro_flags_props(2,3))
qed

lemma length_matched: "length s = length f \<Longrightarrow> length (matched s f) = length (filter (\<lambda>b. b) f)"
proof (induction s f rule: list_induct2)
  case Nil
  show ?case by (simp add: matched_def)
next
  case (Cons x xs y ys)
  then show ?case by (simp add: matched_def)
qed

lemma transpositions_le:
  "transpositions s1 s2 \<le> length (filter (\<lambda>b. b) (fst (jaro_flags s1 s2)))"
proof -
  let ?fs = "jaro_flags s1 s2"
  have "transpositions s1 s2 \<le> length (zip (matched s1 (fst ?fs)) (matched s2 (snd ?fs)))"
    unfolding transpositions_def Let_def by (rule length_filter_le)
  also have "\<dots> \<le> length (matched s1 (fst ?fs))" by simp
  also have "\<dots> = length (filter (\<lambda>b. b) (fst ?fs))"
    by (rule length_matched) (simp add: jaro_flags_props(1))
  finally show ?thesis .
qed

lemma jaro_range: "0 \<le> jaro s1 s2 \<and> jaro s1 s2 \<le> 1"
proof (cases "length (filter (\<lambda>b. b) (fst (jaro_flags s1 s2))) = 0")
  case True
  then show ?thesis by (simp add: jaro_def Let_def)
next
  case False
  define m :: rat where "m = of_nat (length (filter (\<lambda>b. b) (fst (jaro_flags s1 s2))))"
  define t :: rat where "t = of_nat (transpositions s1 s2) / 2"
  define a :: rat where "a = of_nat (length s1)"
  define b :: rat where "b = of_nat (length s2)"
  from False have m0: "0 < m" by (simp add: m_def)
  have ma: "m \<le> a" unfolding m_def a_def using matches_le(1) [of s1 s2] by (simp only: of_nat_le_iff)
  have mb: "m \<le> b" unfolding m_def b_def using matches_le(2) [of s1 s2] by (simp only: of_nat_le_iff)
  have t0: "0 \<le> t" by (simp add: t_def)
  have "of_nat (transpositions s1 s2) \<le> m"
    unfolding m_def using transpositions_le [of s1 s2] by (simp only: of_nat_le_iff)
  then have tm: "t \<le> m" unfolding t_def using m0 by simp
  have j: "jaro s1 s2 = (1 / 3) * (m / a + m / b + (m - t) / m)"
    using False by (simp add: jaro_def Let_def m_def t_def a_def b_def)
  have a0: "0 < a" and b0: "0 < b" using m0 ma mb by simp_all
  have 1: "0 \<le> m / a \<and> m / a \<le> 1" using m0 ma a0 by simp
  have 2: "0 \<le> m / b \<and> m / b \<le> 1" using m0 mb b0 by simp
  have 3: "0 \<le> (m - t) / m \<and> (m - t) / m \<le> 1" using m0 t0 tm by simp
  from 1 2 3 show ?thesis unfolding j by simp
qed

lemma common_prefix_le: "common_prefix s1 s2 \<le> 4"
proof -
  have "common_prefix s1 s2 \<le> length (zip (take 4 s1) (take 4 s2))"
    unfolding common_prefix_def by (rule length_takeWhile_le)
  also have "\<dots> \<le> 4" by simp
  finally show ?thesis .
qed

lemma scorer_range: "0 \<le> scorer e s1 s2 \<and> scorer e s1 s2 \<le> 1"
proof (cases "s1 = [] \<and> s2 = []")
  case True
  then show ?thesis by (simp add: scorer_def)
next
  case False
  define J where "J = jaro s1 s2"
  define c :: rat where "c = of_nat (common_prefix s1 s2) * (1 / 10)"
  have J: "0 \<le> J" "J \<le> 1" using jaro_range [of s1 s2] by (simp_all add: J_def)
  have "(of_nat (common_prefix s1 s2) :: rat) \<le> of_nat 4"
    using common_prefix_le [of s1 s2] by (simp only: of_nat_le_iff)
  then have c: "0 \<le> c" "c \<le> 1" by (simp_all add: c_def)
  have s: "scorer e s1 s2 = J + c * (1 - J)"
    unfolding scorer_def J_def c_def by (rule if_not_P [OF False])
  have "0 \<le> c * (1 - J)" using c(1) J(2) by simp
  moreover have "c * (1 - J) \<le> 1 * (1 - J)"
    using c(2) J(2) by (intro mult_right_mono) simp_all
  ultimately show ?thesis unfolding s using J(1) by simp
qed

lemma self_flags_update:
  assumes "k < l"
  shows "(replicate k True @ replicate (l - k) False)[k := True] =
     replicate (Suc k) True @ replicate (l - Suc k) False"
proof -
  from assms have "replicate (l - k) False = False # replicate (l - Suc k) False"
    by (cases "l - k") (simp_all add: Suc_diff_Suc)
  then show ?thesis
    by (simp add: list_update_append replicate_append_same)
qed

lemma self_flags_nth:
  assumes "k < l"
  shows "\<not> (replicate k True @ replicate (l - k) False) ! k"
    and "\<And>j. j < k \<Longrightarrow> (replicate k True @ replicate (l - k) False) ! j"
  using assms by (simp_all add: nth_append)

lemma self_scan:
  assumes "2 \<le> length s" "k \<le> length s"
  shows "foldl (jaro_step s s) (replicate (length s) False, replicate (length s) False) [0..<k] =
     (replicate k True @ replicate (length s - k) False,
      replicate k True @ replicate (length s - k) False)"
  using assms(2)
proof (induction k)
  case 0
  show ?case by simp
next
  case (Suc k)
  let ?f = "replicate k True @ replicate (length s - k) False"
  have k: "k < length s" using Suc.prems by simp
  have ih: "foldl (jaro_step s s) (replicate (length s) False, replicate (length s) False) [0..<k] = (?f, ?f)"
    using Suc by simp
  have w: "0 \<le> match_window (length s) (length s)"
    using assms(1) by (simp add: match_window_def)
  let ?P = "\<lambda>j. \<not> snd (?f, ?f) ! j \<and> s ! j = s ! k \<and>
                      \<bar>int k - int j\<bar> \<le> match_window (length s) (length s)"
  have "find ?P [0..<length s] = Some k"
    unfolding find_Some_iff
  proof (intro exI [of _ k] conjI allI impI)
    show "k < length [0..<length s]" using k by simp
    show "\<not> snd (?f, ?f) ! ([0..<length s] ! k)"
      using k self_flags_nth(1) [OF k] by simp
    show "s ! ([0..<length s] ! k) = s ! k" using k by simp
    show "\<bar>int k - int ([0..<length s] ! k)\<bar> \<le> match_window (length s) (length s)"
      using k w by simp
    show "k = [0..<length s] ! k" using k by simp
  next
    fix j assume j: "j < k"
    then have "j < length s" using k by simp
    then have "[0..<length s] ! j = j" by simp
    moreover have "?f ! j" using self_flags_nth(2) [OF k j] .
    ultimately show "\<not> ?P ([0..<length s] ! j)" by simp
  qed
  then have "jaro_step s s (?f, ?f) k = (?f[k := True], ?f[k := True])"
    by (simp add: jaro_step_def)
  then show ?case
    by (simp add: ih self_flags_update [OF k])
qed

lemma jaro_flags_self:
  assumes "2 \<le> length s"
  shows "jaro_flags s s = (replicate (length s) True, replicate (length s) True)"
  using self_scan [OF assms, of "length s"] by (simp add: jaro_flags_def)

lemma matched_all: "matched s (replicate (length s) True) = s"
  by (induction s) (simp_all add: matched_def)

lemma no_transposition_self: "filter (\<lambda>p. fst p \<noteq> snd p) (zip s s) = []"
  by (induction s) simp_all

lemma jaro_self:
  assumes "2 \<le> length s"
  shows "jaro s s = 1"
proof -
  have t: "transpositions s s = 0"
    by (simp add: transpositions_def jaro_flags_self [OF assms] matched_all no_transposition_self)
  have m: "length (filter (\<lambda>b. b) (fst (jaro_flags s s))) = length s"
    by (simp add: jaro_flags_self [OF assms])
  have "0 < length s" using assms by linarith
  then have "(0 :: rat) < of_nat (length s)" by (simp only: of_nat_0_less_iff)
  then show ?thesis
    unfolding jaro_def Let_def m t by simp
qed

lemma scorer_self:
  assumes "2 \<le> length s"
  shows "scorer e s s = 1"
proof -
  from assms have "s \<noteq> []" by (cases s) simp_all
  then show ?thesis by (simp add: scorer_def jaro_self [OF assms])
qed

lemma scorer_single: "scorer e [c] [c] = 1 / 10"
  by (simp add: scorer_def jaro_def jaro_flags_def jaro_step_def match_window_def
      common_prefix_def transpositions_def matched_def)

lemma scorer_empty: "scorer e [] [] = (if e then 1 else 0)"
  by (simp add: scorer_def)

subsection \<open>C8: the score of a string with itself, and the range of the score\<close>




end
